theory Spec2Isabelle
  imports Complex_Main "HOL-Library.AList" "HOL-Library.Char_ord" "HOL-Library.List_Lexorder"
    "HOL-Library.Product_Lexorder" "HOL-Library.Sublist"
begin

section \<open>Team identifier normalizer\<close>

text \<open>
  The two lookup tables of \<^verbatim>\<open>odds_schedule.py\<close>, as association lists in the order of
  the dict literals. Neither literal repeats a key, so \<open>map_of\<close> reads them as Python does.
\<close>

definition ODDS_TEAM_NAME_TO_ABBR :: "(string \<times> string) list" where
  "ODDS_TEAM_NAME_TO_ABBR =
    [(''Arizona Cardinals'', ''ARI''),
     (''Atlanta Falcons'', ''ATL''),
     (''Baltimore Ravens'', ''BAL''),
     (''Buffalo Bills'', ''BUF''),
     (''Carolina Panthers'', ''CAR''),
     (''Chicago Bears'', ''CHI''),
     (''Cincinnati Bengals'', ''CIN''),
     (''Cleveland Browns'', ''CLE''),
     (''Dallas Cowboys'', ''DAL''),
     (''Denver Broncos'', ''DEN''),
     (''Detroit Lions'', ''DET''),
     (''Green Bay Packers'', ''GB''),
     (''Houston Texans'', ''HOU''),
     (''Indianapolis Colts'', ''IND''),
     (''Jacksonville Jaguars'', ''JAX''),
     (''Kansas City Chiefs'', ''KC''),
     (''Las Vegas Raiders'', ''LV''),
     (''Los Angeles Chargers'', ''LAC''),
     (''Los Angeles Rams'', ''LAR''),
     (''Miami Dolphins'', ''MIA''),
     (''Minnesota Vikings'', ''MIN''),
     (''New England Patriots'', ''NE''),
     (''New Orleans Saints'', ''NO''),
     (''New York Giants'', ''NYG''),
     (''New York Jets'', ''NYJ''),
     (''Philadelphia Eagles'', ''PHI''),
     (''Pittsburgh Steelers'', ''PIT''),
     (''Seattle Seahawks'', ''SEA''),
     (''San Francisco 49ers'', ''SF''),
     (''Tampa Bay Buccaneers'', ''TB''),
     (''Tennessee Titans'', ''TEN''),
     (''Washington Commanders'', ''WAS'')]"

definition TEAM_ABBR_FIXES :: "(string \<times> string) list" where
  "TEAM_ABBR_FIXES =
    [(''ARI'', ''ARI''),
     (''BLT'', ''BAL''),
     (''BAL'', ''BAL''),
     (''CLV'', ''CLE''),
     (''CLE'', ''CLE''),
     (''GBP'', ''GB''),
     (''GNB'', ''GB''),
     (''GB'', ''GB''),
     (''HST'', ''HOU''),
     (''HOU'', ''HOU''),
     (''JAC'', ''JAX''),
     (''JAX'', ''JAX''),
     (''KAN'', ''KC''),
     (''KC'', ''KC''),
     (''LA'', ''LAR''),
     (''LAR'', ''LAR''),
     (''SD'', ''LAC''),
     (''LAC'', ''LAC''),
     (''OAK'', ''LV''),
     (''LVR'', ''LV''),
     (''LV'', ''LV''),
     (''NOR'', ''NO''),
     (''NO'', ''NO''),
     (''NWE'', ''NE''),
     (''NE'', ''NE''),
     (''SFO'', ''SF''),
     (''SF'', ''SF''),
     (''STL'', ''LAR''),
     (''TAM'', ''TB''),
     (''TB'', ''TB''),
     (''WFT'', ''WAS''),
     (''WSH'', ''WAS''),
     (''WAS'', ''WAS'')]"

text \<open>
  \<^verbatim>\<open>str.upper\<close> on the ASCII range: the letters \<open>a\<close> to \<open>z\<close> (codes 97 to 122) move to
  \<open>A\<close> to \<open>Z\<close>, every other character stays. A \<open>string\<close> is a list of 8-bit characters, so
  Python's case mapping of code points beyond ASCII is outside this model.
\<close>

definition upper_char :: "char \<Rightarrow> char" where
  "upper_char c =
     (let n = (of_char c :: nat) in if 97 \<le> n \<and> n \<le> 122 then char_of (n - 32) else c)"

definition upper :: "string \<Rightarrow> string" where
  "upper s = map upper_char s"

text \<open>
  \<^verbatim>\<open>_normalize_team\<close> (a leading underscore is not an Isabelle name). The argument is
  \<^verbatim>\<open>Optional[str]\<close>: \<open>None\<close> is Python's \<^verbatim>\<open>None\<close>. The three tests are the source's, in
  its order; there is no branch that raises.
\<close>

definition normalize_team :: "string option \<Rightarrow> string option" where
  "normalize_team name =
     (case name of
        None \<Rightarrow> None
      | Some s \<Rightarrow>
          (case map_of ODDS_TEAM_NAME_TO_ABBR s of
             Some abbr \<Rightarrow> Some abbr
           | None \<Rightarrow>
               (case map_of TEAM_ABBR_FIXES (upper s) of
                  Some abbr \<Rightarrow> Some abbr
                | None \<Rightarrow> Some s)))"

section \<open>Values, dicts and frames\<close>

text \<open>
  A cell of a pandas frame or a value of a JSON payload, as far as the pipeline looks at
  it: it copies cells, tests them for being null, compares keys for equality, orders
  \<^verbatim>\<open>commence_time\<close> and normalizes team names. \<open>NA\<close> stands for every null of pandas
  (\<^verbatim>\<open>None\<close>, \<^verbatim>\<open>NaN\<close>, \<^verbatim>\<open>pd.NA\<close>): \<^verbatim>\<open>isna\<close>, \<^verbatim>\<open>notna\<close>, \<^verbatim>\<open>dropna\<close> and \<^verbatim>\<open>fillna\<close>
  do not tell them apart. Numbers are only copied, never computed with.
\<close>

datatype cell = NA | Str string | Num rat

text \<open>
  A Python dict with string keys, in insertion order: \<^verbatim>\<open>d[k] = v\<close> is \<open>AList.update\<close>
  (it replaces in place or appends), \<^verbatim>\<open>d.setdefault(k, v)\<close> stores only when \<open>k\<close> is not
  yet a key.
\<close>

type_synonym dict = "(string \<times> cell) list"

definition setdefault :: "string \<Rightarrow> cell \<Rightarrow> dict \<Rightarrow> dict" where
  "setdefault k v d = (case map_of d k of None \<Rightarrow> AList.update k v d | Some _ \<Rightarrow> d)"

text \<open>
  A data frame: its column labels in order, and its rows in order. A row gives a cell for
  every label; the frame's \<open>columns\<close> say which labels exist (the source tests
  \<^verbatim>\<open>col in frame.columns\<close> before it reads a column that may be absent). A row is read
  by label, so it holds one cell for a label: the schedule, the file that \<^verbatim>\<open>pd.read_csv\<close>
  returns and the live table have every label once. Where the source can give one label to
  two columns, in the renaming of the historical file, the table is kept by position
  (\<open>table\<close> below), and the column list of a merged frame shows a label twice when pandas'
  frame has two such columns.
\<close>

type_synonym row = "string \<Rightarrow> cell"

record frame =
  columns :: "string list"
  rows :: "row list"

definition isna :: "cell \<Rightarrow> bool" where
  "isna c = (c = NA)"

definition notna :: "cell \<Rightarrow> bool" where
  "notna c = (c \<noteq> NA)"

text \<open>\<^verbatim>\<open>frame.empty\<close>: true when either axis has length zero.\<close>

definition empty_frame :: "frame \<Rightarrow> bool" where
  "empty_frame fr = (rows fr = [] \<or> columns fr = [])"

text \<open>
  \<^verbatim>\<open>pd.DataFrame(rows)\<close> for a list of dicts: the columns are the keys in the order of
  their first appearance, a key a dict lacks is null in its row.
  \<^verbatim>\<open>pd.DataFrame(columns=cs)\<close> has the columns and no row.
\<close>

definition row_of_dict :: "dict \<Rightarrow> row" where
  "row_of_dict d = (\<lambda>c. case map_of d c of None \<Rightarrow> NA | Some v \<Rightarrow> v)"

definition DataFrame :: "dict list \<Rightarrow> frame" where
  "DataFrame ds = \<lparr>columns = rev (remdups (rev (concat (map (map fst) ds)))),
                    rows = map row_of_dict ds\<rparr>"

definition DataFrame_columns :: "string list \<Rightarrow> frame" where
  "DataFrame_columns cs = \<lparr>columns = cs, rows = []\<rparr>"

definition ODDS_VALUE_COLUMNS :: "string list" where
  "ODDS_VALUE_COLUMNS =
    [''home_moneyline'', ''away_moneyline'', ''spread_line'', ''home_spread_odds'',
     ''away_spread_odds'', ''total_line'', ''over_odds'', ''under_odds'']"

section \<open>Market extractor\<close>

text \<open>
  The provider's payload, typed as the source reads it. A field read with \<^verbatim>\<open>.get\<close> is an
  option (\<open>None\<close>: the key is absent) or carries the default the source passes
  (\<^verbatim>\<open>event.get("teams", [])\<close>, \<^verbatim>\<open>market.get("outcomes", [])\<close>). A price or a point that is
  absent or null is \<open>NA\<close>. A bookmaker has the keys \<^verbatim>\<open>key\<close> and \<^verbatim>\<open>markets\<close>; one with
  neither is the empty dict, which Python takes for false.
\<close>

record outcome =
  oc_name :: "string option"
  oc_price :: cell
  oc_point :: cell

record market =
  mk_key :: "string option"
  mk_outcomes :: "outcome list"

record bookmaker =
  bk_key :: "string option"
  bk_markets :: "market list option"

record event =
  ev_home_team :: "string option"
  ev_teams :: "string list"
  ev_commence_time :: "string option"
  ev_bookmakers :: "bookmaker list"

definition lower_char :: "char \<Rightarrow> char" where
  "lower_char c =
     (let n = (of_char c :: nat) in if 65 \<le> n \<and> n \<le> 90 then char_of (n + 32) else c)"

definition lower :: "string \<Rightarrow> string" where
  "lower s = map lower_char s"

text \<open>Python's truth value of an optional string: \<^verbatim>\<open>None\<close> and \<^verbatim>\<open>""\<close> are false.\<close>

definition truthy :: "string option \<Rightarrow> bool" where
  "truthy x = (case x of None \<Rightarrow> False | Some s \<Rightarrow> s \<noteq> [])"

definition bookmaker_truthy :: "bookmaker \<Rightarrow> bool" where
  "bookmaker_truthy b = (bk_key b \<noteq> None \<or> bk_markets b \<noteq> None)"

definition select_bookmaker :: "bookmaker list \<Rightarrow> string option \<Rightarrow> bookmaker option" where
  "select_bookmaker bookmakers preference =
     (case bookmakers of
        [] \<Rightarrow> None
      | first # _ \<Rightarrow>
          (if truthy preference then
             (case find (\<lambda>book. lower (case bk_key book of None \<Rightarrow> [] | Some k \<Rightarrow> k)
                                  = lower (the preference)) bookmakers of
                Some book \<Rightarrow> Some book
              | None \<Rightarrow> Some first)
           else Some first))"

definition find_market :: "bookmaker \<Rightarrow> string \<Rightarrow> market option" where
  "find_market bookmaker market_key =
     find (\<lambda>market. mk_key market = Some market_key)
       (case bk_markets bookmaker of None \<Rightarrow> [] | Some ms \<Rightarrow> ms)"

definition find_outcome :: "market \<Rightarrow> string \<Rightarrow> outcome option" where
  "find_outcome market target = find (\<lambda>outcome. oc_name outcome = Some target) (mk_outcomes market)"

definition cell_of :: "string option \<Rightarrow> cell" where
  "cell_of x = (case x of None \<Rightarrow> NA | Some s \<Rightarrow> Str s)"

text \<open>
  The three market blocks of the loop body of \<^verbatim>\<open>_odds_json_to_frame\<close>, each a dict
  update. A market or an outcome that was found is a non-empty dict (it has the key it
  was found by), so the source's \<^verbatim>\<open>if h2h:\<close>, \<^verbatim>\<open>if home_spread:\<close> are the tests for
  \<open>Some\<close>.
\<close>

definition add_moneylines :: "bookmaker \<Rightarrow> string \<Rightarrow> string \<Rightarrow> dict \<Rightarrow> dict" where
  "add_moneylines bookmaker home_full away_full row =
     (case find_market bookmaker ''h2h'' of
        None \<Rightarrow> row
      | Some h2h \<Rightarrow>
          (let home_ml = find_outcome h2h home_full;
               away_ml = find_outcome h2h away_full;
               row = AList.update ''home_moneyline''
                       (case home_ml of Some oc \<Rightarrow> oc_price oc | None \<Rightarrow> NA) row;
               row = AList.update ''away_moneyline''
                       (case away_ml of Some oc \<Rightarrow> oc_price oc | None \<Rightarrow> NA) row
           in row))"

definition add_spreads :: "bookmaker \<Rightarrow> string \<Rightarrow> string \<Rightarrow> dict \<Rightarrow> dict" where
  "add_spreads bookmaker home_full away_full row =
     (case find_market bookmaker ''spreads'' of
        None \<Rightarrow> row
      | Some spreads \<Rightarrow>
          (let home_spread = find_outcome spreads home_full;
               away_spread = find_outcome spreads away_full;
               row = (case home_spread of
                        Some oc \<Rightarrow> AList.update ''home_spread_odds'' (oc_price oc)
                                     (AList.update ''spread_line'' (oc_point oc) row)
                      | None \<Rightarrow> row);
               row = (case away_spread of
                        Some oc \<Rightarrow> AList.update ''away_spread_odds'' (oc_price oc)
                                     (setdefault ''spread_line'' (oc_point oc) row)
                      | None \<Rightarrow> row)
           in row))"

definition add_totals :: "bookmaker \<Rightarrow> dict \<Rightarrow> dict" where
  "add_totals bookmaker row =
     (case find_market bookmaker ''totals'' of
        None \<Rightarrow> row
      | Some totals \<Rightarrow>
          (let over = find_outcome totals ''Over'';
               under = find_outcome totals ''Under'';
               row = (case over of
                        Some oc \<Rightarrow> AList.update ''over_odds'' (oc_price oc)
                                     (AList.update ''total_line'' (oc_point oc) row)
                      | None \<Rightarrow> row);
               row = (case under of
                        Some oc \<Rightarrow> AList.update ''under_odds'' (oc_price oc)
                                     (setdefault ''total_line'' (oc_point oc) row)
                      | None \<Rightarrow> row)
           in row))"

text \<open>
  One pass of the loop of \<^verbatim>\<open>_odds_json_to_frame\<close>: \<open>None\<close> is \<^verbatim>\<open>continue\<close>, \<open>Some row\<close>
  is \<^verbatim>\<open>rows.append(row)\<close>.
\<close>

definition away_of :: "event \<Rightarrow> string option" where
  "away_of ev = find (\<lambda>t. Some t \<noteq> ev_home_team ev) (ev_teams ev)"

definition event_row :: "string option \<Rightarrow> event \<Rightarrow> dict option" where
  "event_row bookmaker_preference ev =
     (let home_full = ev_home_team ev;
          away_full = away_of ev
      in if \<not> truthy home_full \<or> \<not> truthy away_full then None
         else
           (case select_bookmaker (ev_bookmakers ev) bookmaker_preference of
              None \<Rightarrow> None
            | Some bookmaker \<Rightarrow>
                if \<not> bookmaker_truthy bookmaker then None
                else
                  (let row = [(''home_team'', cell_of (normalize_team home_full)),
                              (''away_team'', cell_of (normalize_team away_full)),
                              (''commence_time'', cell_of (ev_commence_time ev)),
                              (''odds_source'', Str ''odds_api'')];
                       row = add_moneylines bookmaker (the home_full) (the away_full) row;
                       row = add_spreads bookmaker (the home_full) (the away_full) row;
                       row = add_totals bookmaker row
                   in Some row)))"

definition odds_json_to_frame :: "event list \<Rightarrow> string option \<Rightarrow> frame" where
  "odds_json_to_frame events bookmaker_preference =
     (let rows = List.map_filter (event_row bookmaker_preference) events
      in if rows = [] then DataFrame_columns [''home_team'', ''away_team'']
         else DataFrame rows)"

section \<open>Frame operations\<close>

text \<open>
  The pandas operations the pipeline calls, each with the meaning it has on the frames
  above. \<^verbatim>\<open>frame[cols]\<close> and \<^verbatim>\<open>frame.drop(columns=...)\<close> change the labels and blank what
  is no longer a column.
\<close>

definition select_columns :: "string list \<Rightarrow> frame \<Rightarrow> frame" where
  "select_columns cs fr =
     \<lparr>columns = cs, rows = map (\<lambda>r c. if c \<in> set cs then r c else NA) (rows fr)\<rparr>"

definition drop_columns :: "string list \<Rightarrow> frame \<Rightarrow> frame" where
  "drop_columns cs fr =
     \<lparr>columns = filter (\<lambda>c. c \<notin> set cs) (columns fr),
      rows = map (\<lambda>r c. if c \<in> set cs then NA else r c) (rows fr)\<rparr>"

text \<open>\<^verbatim>\<open>frame[c] = frame[c].map(f)\<close>.\<close>

definition map_column :: "string \<Rightarrow> (cell \<Rightarrow> cell) \<Rightarrow> frame \<Rightarrow> frame" where
  "map_column c f fr = fr\<lparr>rows := map (\<lambda>r. r(c := f (r c))) (rows fr)\<rparr>"

text \<open>\<^verbatim>\<open>frame[c] = v\<close> for a scalar: a new column goes last, an old one is overwritten.\<close>

definition assign_column :: "string \<Rightarrow> cell \<Rightarrow> frame \<Rightarrow> frame" where
  "assign_column c v fr =
     \<lparr>columns = (if c \<in> set (columns fr) then columns fr else columns fr @ [c]),
      rows = map (\<lambda>r. r(c := v)) (rows fr)\<rparr>"

text \<open>
  \<^verbatim>\<open>_normalize_team\<close> as \<^verbatim>\<open>Series.map\<close> calls it on a cell: a string is normalized; a null
  or a number is in neither table and is no \<^verbatim>\<open>str\<close>, so it comes back as it is.
\<close>

definition normalize_cell :: "cell \<Rightarrow> cell" where
  "normalize_cell c = (case c of Str s \<Rightarrow> cell_of (normalize_team (Some s)) | _ \<Rightarrow> c)"

definition dropna :: "string list \<Rightarrow> frame \<Rightarrow> frame" where
  "dropna cs fr = fr\<lparr>rows := filter (\<lambda>r. \<forall>c \<in> set cs. notna (r c)) (rows fr)\<rparr>"

text \<open>
  \<^verbatim>\<open>sort_values(col)\<close>, ascending with nulls last (the defaults). Strings compare as
  Python compares them, character by character, numbers by value; a column that mixes the
  two makes pandas raise and is outside this model. Rows with equal keys keep their order
  here; pandas' default sort does not promise that, and nothing below relies on it.
\<close>

definition sort_rank :: "cell \<Rightarrow> nat \<times> rat \<times> string" where
  "sort_rank c = (case c of NA \<Rightarrow> (1, 0, []) | Num q \<Rightarrow> (0, q, []) | Str s \<Rightarrow> (0, 0, s))"

definition sort_values :: "string \<Rightarrow> frame \<Rightarrow> frame" where
  "sort_values col fr = fr\<lparr>rows := sort_key (\<lambda>r. sort_rank (r col)) (rows fr)\<rparr>"

text \<open>
  \<^verbatim>\<open>drop_duplicates(subset=ks, keep="last")\<close>: a row stays when no later row has the same
  cells in the columns \<open>ks\<close>.
\<close>

definition same_key :: "string list \<Rightarrow> row \<Rightarrow> row \<Rightarrow> bool" where
  "same_key ks r r' = (\<forall>k \<in> set ks. r k = r' k)"

fun keep_last :: "string list \<Rightarrow> row list \<Rightarrow> row list" where
  "keep_last ks [] = []"
| "keep_last ks (r # rs) =
     (if \<exists>r' \<in> set rs. same_key ks r r' then keep_last ks rs else r # keep_last ks rs)"

definition drop_duplicates :: "string list \<Rightarrow> frame \<Rightarrow> frame" where
  "drop_duplicates ks fr = fr\<lparr>rows := keep_last ks (rows fr)\<rparr>"

text \<open>
  The exceptions that can leave the pipeline. \<open>ValueError msg\<close> is the \<^verbatim>\<open>ValueError\<close> that
  the schema check of the source raises, with its message. The next two are raised inside
  pandas (both are \<^verbatim>\<open>ValueError\<close>s there, with pandas' own messages): \<open>MergeKeyError k\<close> by
  a merge whose key column \<open>k\<close> is text in one frame and numeric in the other, and
  \<open>DuplicateColumnError\<close> when a label that names two columns is read as one column.
  \<open>CsvReadError\<close> is whatever \<^verbatim>\<open>pd.read_csv\<close> raises on a file it cannot read or parse.
\<close>

datatype error = ValueError string | MergeKeyError string | DuplicateColumnError | CsvReadError

text \<open>
  \<^verbatim>\<open>left.merge(right, on=on, how="left", suffixes=(sl, sr))\<close>. Every left row, in order,
  is paired with each right row that has the same cells in the \<open>on\<close> columns (pandas
  matches a null key with a null key), in the right frame's order, or with a row of nulls
  when there is none; \<open>joined_rows\<close> lists these pairs, and each pair gives one row. The
  \<open>on\<close> columns come from the left row. A label that both frames have outside \<open>on\<close> gets
  the suffix \<open>sl\<close> on the left and \<open>sr\<close> on the right. \<open>left_join\<close> is the frame that comes
  out; \<open>merge_left\<close> below is the call, which first tests the key columns.
\<close>

definition match_rows :: "frame \<Rightarrow> string list \<Rightarrow> row \<Rightarrow> row list" where
  "match_rows right on l =
     (let matches = filter (\<lambda>r. same_key on l r) (rows right)
      in if matches = [] then [\<lambda>_. NA] else matches)"

definition joined_rows :: "frame \<Rightarrow> frame \<Rightarrow> string list \<Rightarrow> (row \<times> row) list" where
  "joined_rows left right on =
     concat (map (\<lambda>l. map (Pair l) (match_rows right on l)) (rows left))"

definition suffixed :: "frame \<Rightarrow> frame \<Rightarrow> string list \<Rightarrow> string \<Rightarrow> string \<Rightarrow> string" where
  "suffixed left right on s c =
     (if c \<in> set (columns left) \<and> c \<in> set (columns right) \<and> c \<notin> set on then c @ s else c)"

definition join_row ::
  "frame \<Rightarrow> frame \<Rightarrow> string list \<Rightarrow> string \<times> string \<Rightarrow> row \<times> row \<Rightarrow> row" where
  "join_row left right on sfx =
     (\<lambda>(l, r) c.
        case find (\<lambda>c'. suffixed left right on (fst sfx) c' = c) (columns left) of
          Some c' \<Rightarrow> l c'
        | None \<Rightarrow>
            (case find (\<lambda>c'. suffixed left right on (snd sfx) c' = c)
                    (filter (\<lambda>c. c \<notin> set on) (columns right)) of
               Some c' \<Rightarrow> r c'
             | None \<Rightarrow> NA))"

definition left_join :: "frame \<Rightarrow> frame \<Rightarrow> string list \<Rightarrow> string \<times> string \<Rightarrow> frame" where
  "left_join left right on sfx =
     \<lparr>columns = map (suffixed left right on (fst sfx)) (columns left) @
                map (suffixed left right on (snd sfx))
                  (filter (\<lambda>c. c \<notin> set on) (columns right)),
      rows = map (join_row left right on sfx) (joined_rows left right on)\<rparr>"

text \<open>
  Before it joins, pandas compares the types of the key columns and refuses a key that
  is text on one side and numeric on the other; it skips the test when one side has no
  row. pandas reads the type off the column's dtype; here the cells say it: a column with
  a text cell is text, a column with rows and no text cell is numeric (its nulls are
  \<^verbatim>\<open>NaN\<close>). A column that mixes text and numbers is outside this model. The first
  offending key, in the order of \<open>on\<close>, is reported.
\<close>

definition is_text :: "cell \<Rightarrow> bool" where
  "is_text c = (case c of Str _ \<Rightarrow> True | _ \<Rightarrow> False)"

definition text_column :: "frame \<Rightarrow> string \<Rightarrow> bool" where
  "text_column fr c = (\<exists>r \<in> set (rows fr). is_text (r c))"

definition number_column :: "frame \<Rightarrow> string \<Rightarrow> bool" where
  "number_column fr c = (rows fr \<noteq> [] \<and> (\<forall>r \<in> set (rows fr). \<not> is_text (r c)))"

definition key_clash :: "frame \<Rightarrow> frame \<Rightarrow> string \<Rightarrow> bool" where
  "key_clash left right k =
     (text_column left k \<and> number_column right k \<or> number_column left k \<and> text_column right k)"

definition merge_left ::
  "frame \<Rightarrow> frame \<Rightarrow> string list \<Rightarrow> string \<times> string \<Rightarrow> error + frame" where
  "merge_left left right on sfx =
     (case find (key_clash left right) on of
        Some k \<Rightarrow> Inl (MergeKeyError k)
      | None \<Rightarrow> Inr (left_join left right on sfx))"

text \<open>
  A table by position: the labels of its columns in order, and every row as the list of
  its cells in that order. Two columns may have one label. \<^verbatim>\<open>frame.rename(columns=m)\<close>
  replaces every label that is a key of \<open>m\<close> and keeps the cells, so two columns renamed to
  one label both stay. \<^verbatim>\<open>table[c] = table[c].map(f)\<close> maps the cells under the label \<open>c\<close>
  (the loader does it for the two team labels, which no renaming produces).
  \<^verbatim>\<open>table[ks]\<close> takes, for every label of \<open>ks\<close> in turn, every column with that label.
  \<open>frame_of_table\<close> reads a table by label, as the merge and the backfill loop do; it
  keeps the column list, and under a label that names two columns it shows the first one
  (the backfill raises before it reads such a label).
\<close>

record table =
  labels :: "string list"
  cells :: "cell list list"

definition rename_columns :: "(string \<times> string) list \<Rightarrow> frame \<Rightarrow> table" where
  "rename_columns m fr =
     (let ren = (\<lambda>c. case map_of m c of None \<Rightarrow> c | Some v \<Rightarrow> v)
      in \<lparr>labels = map ren (columns fr),
          cells = map (\<lambda>r. map r (columns fr)) (rows fr)\<rparr>)"

definition map_label :: "string \<Rightarrow> (cell \<Rightarrow> cell) \<Rightarrow> table \<Rightarrow> table" where
  "map_label c f t =
     t\<lparr>cells := map (\<lambda>cs. map (\<lambda>(l, v). if l = c then f v else v) (zip (labels t) cs))
                   (cells t)\<rparr>"

definition select_labels :: "string list \<Rightarrow> table \<Rightarrow> table" where
  "select_labels ks t =
     \<lparr>labels = concat (map (\<lambda>k. filter (\<lambda>l. l = k) (labels t)) ks),
      cells = map (\<lambda>cs. concat (map (\<lambda>k. map snd (filter (\<lambda>(l, v). l = k) (zip (labels t) cs))) ks))
                (cells t)\<rparr>"

text \<open>\<^verbatim>\<open>table.empty\<close>.\<close>

definition empty_table :: "table \<Rightarrow> bool" where
  "empty_table t = (cells t = [] \<or> labels t = [])"

definition frame_of_table :: "table \<Rightarrow> frame" where
  "frame_of_table t =
     \<lparr>columns = labels t,
      rows = map (\<lambda>cs c. case map_of (zip (labels t) cs) c of None \<Rightarrow> NA | Some v \<Rightarrow> v)
               (cells t)\<rparr>"

section \<open>The outside world\<close>

text \<open>
  The outside world is what the provider call yields (\<open>None\<close>: the request, the status
  check or the decoding raised; the source catches every \<^verbatim>\<open>Exception\<close> of that call) and
  what is at a path (\<open>None\<close>: \<^verbatim>\<open>os.path.exists\<close> is false; \<open>Unreadable\<close>: a file that
  \<^verbatim>\<open>pd.read_csv\<close> cannot read or parse). The provider settings \<^verbatim>\<open>sport\<close>, \<^verbatim>\<open>regions\<close>,
  \<^verbatim>\<open>markets\<close>, \<^verbatim>\<open>odds_format\<close> only shape the request; warnings change no result and are
  left out.
\<close>

datatype csv_file = Unreadable | Csv frame

record env =
  provider :: "event list option"
  files :: "string \<Rightarrow> csv_file option"

definition read_csv :: "csv_file \<Rightarrow> error + frame" where
  "read_csv f = (case f of Unreadable \<Rightarrow> Inl CsvReadError | Csv fr \<Rightarrow> Inr fr)"

section \<open>Historical backfill loader\<close>

definition HISTORICAL_NAME_MAP :: "(string \<times> string) list" where
  "HISTORICAL_NAME_MAP =
    [(''ml_home'', ''home_moneyline''),
     (''ml_away'', ''away_moneyline''),
     (''moneyline_home'', ''home_moneyline''),
     (''moneyline_away'', ''away_moneyline''),
     (''home_ml'', ''home_moneyline''),
     (''away_ml'', ''away_moneyline''),
     (''spread'', ''spread_line''),
     (''spread_home'', ''spread_line''),
     (''total'', ''total_line''),
     (''game_total'', ''total_line''),
     (''over'', ''over_odds''),
     (''under'', ''under_odds'')]"

text \<open>\<^verbatim>\<open>list(dict.fromkeys(xs))\<close>: the first occurrence of every element, in order.\<close>

definition fromkeys :: "string list \<Rightarrow> string list" where
  "fromkeys xs = rev (remdups (rev xs))"

definition prepare_historical_lines ::
  "(string \<Rightarrow> csv_file option) \<Rightarrow> string \<Rightarrow> string list \<Rightarrow> error + table option" where
  "prepare_historical_lines fs historical_csv key_cols =
     (if historical_csv = [] \<or> fs historical_csv = None then Inr None
      else
        (case read_csv (the (fs historical_csv)) of
           Inl e \<Rightarrow> Inl e
         | Inr hist \<Rightarrow>
             (let rename_map = filter (\<lambda>(k, v). k \<in> set (columns hist)) HISTORICAL_NAME_MAP;
                  hist = rename_columns rename_map hist;
                  missing_keys = filter (\<lambda>col. col \<notin> set (labels hist)) key_cols
              in if missing_keys \<noteq> [] then Inr None
                 else
                   (let hist = map_label ''home_team'' normalize_cell hist;
                        hist = map_label ''away_team'' normalize_cell hist;
                        keep_cols = fromkeys (key_cols @
                                      filter (\<lambda>c. c \<in> set (labels hist)) ODDS_VALUE_COLUMNS)
                    in Inr (Some (select_labels keep_cols hist))))))"

section \<open>Schedule enrichment\<close>

text \<open>
  \<^verbatim>\<open>fetch_schedule_odds\<close>, cut into its steps in the order of the source. First the schema
  check: \<^verbatim>\<open>sorted(required - set(schedule.columns))\<close> is the sorted list of the four
  required labels without those the schedule has, and the message prints it as Python
  prints a list of strings.
\<close>

fun join :: "string \<Rightarrow> string list \<Rightarrow> string" where
  "join sep [] = []"
| "join sep [x] = x"
| "join sep (x # y # ys) = x @ sep @ join sep (y # ys)"

definition repr_str :: "string \<Rightarrow> string" where
  "repr_str x = [CHR 0x27] @ x @ [CHR 0x27]"

definition repr_list :: "string list \<Rightarrow> string" where
  "repr_list xs = ''['' @ join '', '' (map repr_str xs) @ '']''"

definition missing_columns :: "frame \<Rightarrow> string list" where
  "missing_columns schedule =
     filter (\<lambda>c. c \<notin> set (columns schedule)) [''away_team'', ''home_team'', ''season'', ''week'']"

definition key_cols :: "string list" where
  "key_cols = [''season'', ''week'', ''home_team'', ''away_team'']"

definition normalize_schedule :: "frame \<Rightarrow> frame" where
  "normalize_schedule schedule =
     map_column ''away_team'' normalize_cell (map_column ''home_team'' normalize_cell schedule)"

text \<open>The live table: the extractor's frame, or an empty one without a key or on failure.\<close>

definition latest_odds :: "env \<Rightarrow> string \<Rightarrow> string option \<Rightarrow> frame" where
  "latest_odds e api_key bookmaker_preference =
     (if api_key \<noteq> [] then
        (case provider e of
           Some events \<Rightarrow> odds_json_to_frame events bookmaker_preference
         | None \<Rightarrow> DataFrame_columns key_cols)
      else DataFrame_columns [''home_team'', ''away_team''])"

definition dedup_latest :: "frame \<Rightarrow> frame" where
  "dedup_latest latest0 =
     (let latest = dropna [''home_team'', ''away_team''] latest0
      in if \<not> empty_frame latest \<and> ''commence_time'' \<in> set (columns latest)
         then drop_duplicates [''home_team'', ''away_team''] (sort_values ''commence_time'' latest)
         else latest)"

definition latest_cols :: "frame \<Rightarrow> string list" where
  "latest_cols latest =
     [''home_team'', ''away_team''] @
     filter (\<lambda>c. c \<in> set (columns latest))
       (ODDS_VALUE_COLUMNS @ [''odds_source'', ''commence_time''])"

text \<open>
  The live merge, and the odds-value columns it did not bring, added as nulls.
\<close>

definition live_merge :: "frame \<Rightarrow> frame \<Rightarrow> error + frame" where
  "live_merge schedule latest =
     (case merge_left schedule (select_columns (latest_cols latest) latest)
             [''home_team'', ''away_team''] (''_x'', ''_y'') of
        Inl err \<Rightarrow> Inl err
      | Inr merged \<Rightarrow>
          Inr (fold (\<lambda>col m. if col \<notin> set (columns m) then assign_column col NA m else m)
                 ODDS_VALUE_COLUMNS merged))"

text \<open>
  The backfill loop. The state is the frame and \<^verbatim>\<open>filled_from_hist\<close>, one flag per row.
\<close>

definition fill_step :: "string \<Rightarrow> frame \<times> bool list \<Rightarrow> frame \<times> bool list" where
  "fill_step col st =
     (let merged = fst st; filled_from_hist = snd st; hist_col = col @ ''_hist''
      in if hist_col \<in> set (columns merged) then
           (let mask = map (\<lambda>r. isna (r col) \<and> notna (r hist_col)) (rows merged);
                st' = (if \<exists>b \<in> set mask. b
                       then (merged\<lparr>rows := map (\<lambda>(b, r). if b then r(col := r hist_col) else r)
                                               (zip mask (rows merged))\<rparr>,
                             map (\<lambda>(f, b). f \<or> b) (zip filled_from_hist mask))
                       else (merged, filled_from_hist))
            in (drop_columns [hist_col] (fst st'), snd st'))
         else (merged, filled_from_hist))"

definition ensure_odds_source :: "frame \<Rightarrow> frame" where
  "ensure_odds_source merged =
     (if ''odds_source'' \<notin> set (columns merged) then assign_column ''odds_source'' NA merged
      else merged)"

text \<open>
  The backfill of a frame that the historical table has been merged into: the loop, the
  \<^verbatim>\<open>odds_source\<close> column, and the tag \<^verbatim>\<open>historical\<close> on the rows the loop filled that
  carry no tag.
\<close>

definition fill_from_hist :: "frame \<Rightarrow> frame" where
  "fill_from_hist merged =
     (let st = fold fill_step ODDS_VALUE_COLUMNS
                 (merged, replicate (length (rows merged)) False);
          merged = ensure_odds_source (fst st)
      in merged\<lparr>rows := map (\<lambda>(f, r). if f \<and> isna (r ''odds_source'')
                                        then r(''odds_source'' := Str ''historical'') else r)
                           (zip (snd st) (rows merged))\<rparr>)"

text \<open>
  The historical step. The loop reads \<^verbatim>\<open>merged[hist_col]\<close> as one column; when the merged
  frame has that label twice (the historical table has it twice, or the frame already had
  a column of that name) pandas hands back a frame instead, and the test of the mask
  raises. Nothing is returned then, so the test is made once, before the loop.
\<close>

definition duplicated :: "string \<Rightarrow> string list \<Rightarrow> bool" where
  "duplicated x xs = (1 < length (filter (\<lambda>y. y = x) xs))"

definition backfill :: "frame \<Rightarrow> table option \<Rightarrow> error + frame" where
  "backfill merged hist =
     (if hist \<noteq> None \<and> \<not> empty_table (the hist) then
        (case merge_left merged (frame_of_table (the hist)) key_cols ([], ''_hist'') of
           Inl err \<Rightarrow> Inl err
         | Inr merged \<Rightarrow>
             if \<exists>col \<in> set ODDS_VALUE_COLUMNS. duplicated (col @ ''_hist'') (columns merged)
             then Inl DuplicateColumnError
             else Inr (fill_from_hist merged))
      else Inr (ensure_odds_source merged))"

definition tag_sources :: "frame \<Rightarrow> frame" where
  "tag_sources merged =
     (let merged = map_column ''odds_source''
                     (\<lambda>c. if isna c then Str ''odds_api'' else c) merged
      in merged\<lparr>rows := map (\<lambda>r. if \<forall>c \<in> set ODDS_VALUE_COLUMNS. isna (r c)
                                  then r(''odds_source'' := Str ''missing'') else r)
                           (rows merged)\<rparr>)"

text \<open>
  \<^verbatim>\<open>_prepare_historical_lines(historical_csv, key_cols) if historical_csv else None\<close>.
\<close>

definition load_hist :: "(string \<Rightarrow> csv_file option) \<Rightarrow> string option \<Rightarrow> error + table option" where
  "load_hist fs historical_csv =
     (if truthy historical_csv then prepare_historical_lines fs (the historical_csv) key_cols
      else Inr None)"

definition fetch_schedule_odds ::
  "env \<Rightarrow> frame \<Rightarrow> string \<Rightarrow> string option \<Rightarrow> string option \<Rightarrow> error + frame" where
  "fetch_schedule_odds e schedule api_key historical_csv bookmaker_preference =
     (if missing_columns schedule \<noteq> [] then
        Inl (ValueError (''Schedule is missing required columns: '' @
               repr_list (missing_columns schedule)))
      else
        (let schedule = normalize_schedule schedule;
             latest = dedup_latest (latest_odds e api_key bookmaker_preference)
         in case live_merge schedule latest of
              Inl err \<Rightarrow> Inl err
            | Inr merged \<Rightarrow>
                (case load_hist (files e) historical_csv of
                   Inl err \<Rightarrow> Inl err
                 | Inr hist \<Rightarrow>
                     (case backfill merged hist of
                        Inl err \<Rightarrow> Inl err
                      | Inr merged \<Rightarrow> Inr (tag_sources merged)))))"

section \<open>The steps when no merge is refused\<close>

text \<open>
  The frames that the live merge and the historical step give when pandas accepts the keys
  and no label is doubled, as functions of their inputs; the properties below are proved
  of these, and \<open>live_merge\<close> and \<open>backfill\<close> are shown to return them.
\<close>

definition live_frame :: "frame \<Rightarrow> frame \<Rightarrow> frame" where
  "live_frame schedule latest =
     fold (\<lambda>col m. if col \<notin> set (columns m) then assign_column col NA m else m)
       ODDS_VALUE_COLUMNS
       (left_join schedule (select_columns (latest_cols latest) latest)
          [''home_team'', ''away_team''] (''_x'', ''_y''))"

definition backfill_frame :: "frame \<Rightarrow> frame option \<Rightarrow> frame" where
  "backfill_frame merged hist =
     (if hist \<noteq> None \<and> \<not> empty_frame (the hist)
      then fill_from_hist (left_join merged (the hist) key_cols ([], ''_hist''))
      else ensure_odds_source merged)"

section \<open>The backfill loop, row by row\<close>

text \<open>
  What the loop over \<open>cs\<close> does to one row of a frame with the columns \<open>cols\<close>, and the flag
  it raises for the row: closed forms used in the proofs, shown below to agree with
  \<open>fold fill_step\<close>.
\<close>

definition fill_row :: "string list \<Rightarrow> string list \<Rightarrow> row \<Rightarrow> row" where
  "fill_row cs cols r =
     (\<lambda>x. if x \<in> (\<lambda>c. c @ ''_hist'') ` set cs \<and> x \<in> set cols then NA
          else if x \<in> set cs \<and> x @ ''_hist'' \<in> set cols \<and> isna (r x) \<and> notna (r (x @ ''_hist''))
          then r (x @ ''_hist'') else r x)"

definition fill_flag :: "string list \<Rightarrow> string list \<Rightarrow> row \<Rightarrow> bool" where
  "fill_flag cs cols r =
     (\<exists>c \<in> set cs. c @ ''_hist'' \<in> set cols \<and> isna (r c) \<and> notna (r (c @ ''_hist'')))"

text \<open>
  One row of \<open>backfill_frame\<close> when the historical table \<open>H\<close> is used, from the pair of a row of
  \<open>M\<close> and the historical row joined to it: the merge, the loop, the \<^verbatim>\<open>odds_source\<close>
  column and the \<^verbatim>\<open>historical\<close> tag.
\<close>

definition backfill_row :: "frame \<Rightarrow> frame \<Rightarrow> row \<times> row \<Rightarrow> row" where
  "backfill_row M H p =
     (let cJ = columns (left_join M H key_cols ([], ''_hist''));
          r = join_row M H key_cols ([], ''_hist'') p;
          r1 = fill_row ODDS_VALUE_COLUMNS cJ r;
          r2 = (if ''odds_source'' \<in>
                   set (filter (\<lambda>x. x \<notin> (\<lambda>c. c @ ''_hist'') ` set ODDS_VALUE_COLUMNS) cJ)
                then r1 else r1(''odds_source'' := NA))
      in if fill_flag ODDS_VALUE_COLUMNS cJ r \<and> isna (r2 ''odds_source'')
         then r2(''odds_source'' := Str ''historical'') else r2)"

text \<open>
  The rows after the live merge, each with the historical row it is joined with, or with
  a row of nulls when there is no historical table or no row for its key.
\<close>

definition hist_pairs :: "frame \<Rightarrow> frame option \<Rightarrow> (row \<times> row) list" where
  "hist_pairs M hist =
     (case hist of
        None \<Rightarrow> map (\<lambda>l. (l, \<lambda>_. NA)) (rows M)
      | Some H \<Rightarrow> joined_rows M H key_cols)"

text \<open>
  What the loader's table is like: its columns are key columns and odds-value columns, it
  has a column, and its rows are null outside its columns.
\<close>

definition hist_ok :: "frame option \<Rightarrow> bool" where
  "hist_ok hist = (\<forall>H. hist = Some H \<longrightarrow>
      set (columns H) \<subseteq> set key_cols \<union> set ODDS_VALUE_COLUMNS \<and> columns H \<noteq> [] \<and>
      (\<forall>r \<in> set (rows H). \<forall>c. c \<notin> set (columns H) \<longrightarrow> r c = NA))"

section \<open>Example inputs\<close>

text \<open>
  An event whose only bookmaker quotes the spread for both sides, with different points
  and the away side listed first, and the total for the Under side only.
\<close>

definition example_bookmaker :: bookmaker where
  "example_bookmaker =
     \<lparr>bk_key = Some ''fanduel'',
      bk_markets = Some
        [\<lparr>mk_key = Some ''h2h'',
          mk_outcomes = [\<lparr>oc_name = Some ''Kansas City Chiefs'', oc_price = Num (- 150), oc_point = NA\<rparr>,
                         \<lparr>oc_name = Some ''Denver Broncos'', oc_price = Num 130, oc_point = NA\<rparr>]\<rparr>,
         \<lparr>mk_key = Some ''spreads'',
          mk_outcomes = [\<lparr>oc_name = Some ''Denver Broncos'', oc_price = Num (- 110), oc_point = Num (7 / 2)\<rparr>,
                         \<lparr>oc_name = Some ''Kansas City Chiefs'', oc_price = Num (- 105), oc_point = Num (- 3)\<rparr>]\<rparr>,
         \<lparr>mk_key = Some ''totals'',
          mk_outcomes = [\<lparr>oc_name = Some ''Under'', oc_price = Num (- 108), oc_point = Num (89 / 2)\<rparr>]\<rparr>]\<rparr>"

definition example_event :: event where
  "example_event =
     \<lparr>ev_home_team = Some ''Kansas City Chiefs'',
      ev_teams = [''Kansas City Chiefs'', ''Denver Broncos''],
      ev_commence_time = Some ''2023-09-10T17:00:00Z'',
      ev_bookmakers = [example_bookmaker]\<rparr>"

definition example_event_row :: dict where
  "example_event_row =
     [(''home_team'', Str ''KC''), (''away_team'', Str ''DEN''),
      (''commence_time'', Str ''2023-09-10T17:00:00Z''), (''odds_source'', Str ''odds_api''),
      (''home_moneyline'', Num (- 150)), (''away_moneyline'', Num 130),
      (''spread_line'', Num (- 3)), (''home_spread_odds'', Num (- 105)),
      (''away_spread_odds'', Num (- 110)),
      (''total_line'', Num (89 / 2)), (''under_odds'', Num (- 108))]"

text \<open>
  A frame as the rows of its cells in column order (\<^verbatim>\<open>frame.values.tolist()\<close>), to write
  results down.
\<close>

definition to_lists :: "frame \<Rightarrow> cell list list" where
  "to_lists fr = map (\<lambda>r. map r (columns fr)) (rows fr)"

text \<open>
  A one-game schedule with a legacy home abbreviation; a historical file with the legacy
  column \<^verbatim>\<open>spread\<close> and a column the loader drops; a file system with that file, a file
  that exists and cannot be read, and nothing else.
\<close>

definition example_schedule :: frame where
  "example_schedule =
     \<lparr>columns = [''season'', ''week'', ''home_team'', ''away_team''],
      rows = [row_of_dict [(''season'', Num 2023), (''week'', Num 1),
                           (''home_team'', Str ''KAN''), (''away_team'', Str ''DEN'')]]\<rparr>"

definition example_csv :: frame where
  "example_csv =
     \<lparr>columns = [''season'', ''week'', ''home_team'', ''away_team'', ''spread'', ''stadium''],
      rows = [row_of_dict [(''season'', Num 2023), (''week'', Num 1),
                           (''home_team'', Str ''Kansas City Chiefs''), (''away_team'', Str ''DEN''),
                           (''spread'', Num (- 7 / 2)), (''stadium'', Str ''Arrowhead'')]]\<rparr>"

text \<open>
  A historical file in which two columns, \<^verbatim>\<open>spread\<close> and \<^verbatim>\<open>spread_home\<close>, are renamed to
  one label.
\<close>

definition example_csv_two :: frame where
  "example_csv_two =
     \<lparr>columns = [''season'', ''week'', ''home_team'', ''away_team'', ''spread'', ''total'',
                 ''spread_home''],
      rows = [row_of_dict [(''season'', Num 2023), (''week'', Num 1),
                           (''home_team'', Str ''KAN''), (''away_team'', Str ''DEN''),
                           (''spread'', Num (- 7 / 2)), (''total'', Num 45),
                           (''spread_home'', Num (- 3))]]\<rparr>"

definition example_files :: "string \<Rightarrow> csv_file option" where
  "example_files p =
     (if p = ''lines.csv'' then Some (Csv example_csv)
      else if p = ''both.csv'' then Some (Csv example_csv_two)
      else if p = ''locked.csv'' then Some Unreadable
      else None)"

definition example_env :: env where
  "example_env = \<lparr>provider = Some [example_event], files = example_files\<rparr>"

text \<open>
  A live table with two quotes for one pair of teams, the later one listed first, and a
  row without an away team.
\<close>

definition example_quote_late :: dict where
  "example_quote_late =
     [(''home_team'', Str ''KC''), (''away_team'', Str ''DEN''),
      (''commence_time'', Str ''2023-09-17T17:00:00Z''), (''odds_source'', Str ''odds_api''),
      (''home_moneyline'', Num (- 140))]"

definition example_quote_early :: dict where
  "example_quote_early =
     [(''home_team'', Str ''KC''), (''away_team'', Str ''DEN''),
      (''commence_time'', Str ''2023-09-10T17:00:00Z''), (''odds_source'', Str ''odds_api''),
      (''home_moneyline'', Num (- 150))]"

definition example_latest :: frame where
  "example_latest =
     DataFrame [example_quote_late, example_quote_early,
                [(''home_team'', Str ''GB''), (''away_team'', NA),
                 (''commence_time'', Str ''2023-09-24T17:00:00Z''),
                 (''odds_source'', Str ''odds_api''), (''home_moneyline'', Num (- 120))]]"

text \<open>
  A schedule that already carries a line of its own, as schedule files with betting
  columns do.
\<close>

definition example_schedule_with_line :: frame where
  "example_schedule_with_line =
     \<lparr>columns = [''season'', ''week'', ''home_team'', ''away_team'', ''spread_line''],
      rows = [row_of_dict [(''season'', Num 2023), (''week'', Num 1),
                           (''home_team'', Str ''KAN''), (''away_team'', Str ''DEN''),
                           (''spread_line'', Num (- 7 / 2))]]\<rparr>"

text \<open>
  The same game in a schedule whose \<^verbatim>\<open>season\<close> is text, as a file read with string
  columns has it; and the example event without a \<^verbatim>\<open>commence_time\<close>.
\<close>

definition example_schedule_text_season :: frame where
  "example_schedule_text_season =
     \<lparr>columns = [''season'', ''week'', ''home_team'', ''away_team''],
      rows = [row_of_dict [(''season'', Str ''2023''), (''week'', Num 1),
                           (''home_team'', Str ''KAN''), (''away_team'', Str ''DEN'')]]\<rparr>"

definition example_event_undated :: event where
  "example_event_undated = example_event\<lparr>ev_commence_time := None\<rparr>"

section \<open>Properties of the normalizer\<close>

lemma upper_literals:
  "list_all (\<lambda>a. upper a = a) (map snd ODDS_TEAM_NAME_TO_ABBR @ map snd TEAM_ABBR_FIXES)"
  by code_simp

lemma normalize_team_abbr_fixed:
  "list_all (\<lambda>a. normalize_team (Some a) = Some a)
     (map snd ODDS_TEAM_NAME_TO_ABBR @ map snd TEAM_ABBR_FIXES)"
  by code_simp

lemma normalize_team_range:
  assumes "normalize_team (Some s) = Some t"
  shows "t = s \<or> t \<in> set (map snd ODDS_TEAM_NAME_TO_ABBR @ map snd TEAM_ABBR_FIXES)"
proof (cases "map_of ODDS_TEAM_NAME_TO_ABBR s")
  case (Some a)
  with assms have "t = a" by (simp add: normalize_team_def)
  moreover from Some have "(s, a) \<in> set ODDS_TEAM_NAME_TO_ABBR" by (rule map_of_SomeD)
  ultimately show ?thesis by force
next
  case None
  show ?thesis
  proof (cases "map_of TEAM_ABBR_FIXES (upper s)")
    case (Some a)
    with None assms have "t = a" by (simp add: normalize_team_def)
    moreover from Some have "(upper s, a) \<in> set TEAM_ABBR_FIXES" by (rule map_of_SomeD)
    ultimately show ?thesis by force
  next
    case None2: None
    with None assms show ?thesis by (simp add: normalize_team_def)
  qed
qed

lemma normalize_team_idem: "normalize_team (normalize_team x) = normalize_team x"
proof (cases x)
  case None
  then show ?thesis by (simp add: normalize_team_def)
next
  case (Some s)
  have "normalize_team (Some s) \<noteq> None"
    by (simp add: normalize_team_def split: option.splits)
  then obtain t where t: "normalize_team (Some s) = Some t"
    by blast
  from normalize_team_range [OF t] show ?thesis
  proof
    assume "t = s"
    with t Some show ?thesis by simp
  next
    assume "t \<in> set (map snd ODDS_TEAM_NAME_TO_ABBR @ map snd TEAM_ABBR_FIXES)"
    with normalize_team_abbr_fixed have "normalize_team (Some t) = Some t"
      unfolding list_all_iff by blast
    with t Some show ?thesis by simp
  qed
qed

text \<open>
  C4. \<^verbatim>\<open>_normalize_team\<close> returns \<^verbatim>\<open>None\<close> for \<^verbatim>\<open>None\<close>; the table's abbreviation when the
  input is a key of the full-name table; otherwise the abbreviation the alias table gives
  for the uppercased input, when that is one of its keys; otherwise the input itself. The
  function is total: every input has a result and no branch raises.
\<close>

theorem normalize_team_spec:
  "normalize_team None = None \<and>
   (\<forall>s a. map_of ODDS_TEAM_NAME_TO_ABBR s = Some a \<longrightarrow> normalize_team (Some s) = Some a) \<and>
   (\<forall>s a. map_of ODDS_TEAM_NAME_TO_ABBR s = None \<and> map_of TEAM_ABBR_FIXES (upper s) = Some a
      \<longrightarrow> normalize_team (Some s) = Some a) \<and>
   (\<forall>s. map_of ODDS_TEAM_NAME_TO_ABBR s = None \<and> map_of TEAM_ABBR_FIXES (upper s) = None
      \<longrightarrow> normalize_team (Some s) = Some s)"
  by (simp add: normalize_team_def)

theorem normalize_team_spec_witness:
  "normalize_team None = None \<and>
   normalize_team (Some ''Kansas City Chiefs'') = Some ''KC'' \<and>
   normalize_team (Some ''gnb'') = Some ''GB'' \<and>
   normalize_team (Some ''Springfield Atoms'') = Some ''Springfield Atoms''"
proof -
  have a: "map_of ODDS_TEAM_NAME_TO_ABBR ''Kansas City Chiefs'' = Some ''KC''"
    by code_simp
  have b: "map_of ODDS_TEAM_NAME_TO_ABBR ''gnb'' = None \<and>
           map_of TEAM_ABBR_FIXES (upper ''gnb'') = Some ''GB''"
    by code_simp
  have c: "map_of ODDS_TEAM_NAME_TO_ABBR ''Springfield Atoms'' = None \<and>
           map_of TEAM_ABBR_FIXES (upper ''Springfield Atoms'') = None"
    by code_simp
  from normalize_team_spec a b c show ?thesis by blast
qed

lemma normalize_team_full_names:
  "list_all (\<lambda>(name, abbr). normalize_team (Some name) = Some abbr \<and>
      normalize_team (Some abbr) = Some abbr) ODDS_TEAM_NAME_TO_ABBR"
  by code_simp

text \<open>
  C5. \<^verbatim>\<open>_normalize_team\<close> is idempotent, and every name of the full-name table is sent
  to the abbreviation the table gives, which \<^verbatim>\<open>_normalize_team\<close> then leaves as it is.
\<close>

theorem normalize_team_idempotent:
  "normalize_team (normalize_team x) = normalize_team x \<and>
   (\<forall>(name, abbr) \<in> set ODDS_TEAM_NAME_TO_ABBR.
      normalize_team (Some name) = Some abbr \<and> normalize_team (Some abbr) = Some abbr)"
  using normalize_team_idem [of x] normalize_team_full_names
  unfolding list_all_iff by blast

theorem normalize_team_idempotent_witness:
  "normalize_team (normalize_team (Some ''gnb'')) = normalize_team (Some ''gnb'') \<and>
   normalize_team (Some ''gnb'') = Some ''GB'' \<and>
   normalize_team (Some ''Green Bay Packers'') = Some ''GB'' \<and>
   normalize_team (Some ''GB'') = Some ''GB''"
proof -
  have m: "(''Green Bay Packers'', ''GB'') \<in> set ODDS_TEAM_NAME_TO_ABBR"
    by (simp add: ODDS_TEAM_NAME_TO_ABBR_def)
  have g: "normalize_team (Some ''gnb'') = Some ''GB''"
    by code_simp
  from normalize_team_idempotent [of "Some ''gnb''"] m g show ?thesis by blast
qed

section \<open>Properties of the market extractor\<close>

lemma map_of_setdefault:
  "map_of (setdefault k v d) k' = (if k' = k \<and> map_of d k = None then Some v else map_of d k')"
  by (simp add: setdefault_def update_conv' split: option.splits)

lemma map_of_add_moneylines_other:
  "k \<noteq> ''home_moneyline'' \<Longrightarrow> k \<noteq> ''away_moneyline'' \<Longrightarrow>
   map_of (add_moneylines bk h a row) k = map_of row k"
  by (simp add: add_moneylines_def update_conv' Let_def split: option.splits)

lemma map_of_add_spreads_other:
  "k \<noteq> ''spread_line'' \<Longrightarrow> k \<noteq> ''home_spread_odds'' \<Longrightarrow> k \<noteq> ''away_spread_odds'' \<Longrightarrow>
   map_of (add_spreads bk h a row) k = map_of row k"
  by (simp add: add_spreads_def update_conv' map_of_setdefault Let_def split: option.splits)

lemma map_of_add_totals_other:
  "k \<noteq> ''total_line'' \<Longrightarrow> k \<noteq> ''over_odds'' \<Longrightarrow> k \<noteq> ''under_odds'' \<Longrightarrow>
   map_of (add_totals bk row) k = map_of row k"
  by (simp add: add_totals_def update_conv' map_of_setdefault Let_def split: option.splits)

lemma add_spreads_home:
  assumes "find_market bk ''spreads'' = Some m" and "find_outcome m h = Some ho"
  shows "map_of (add_spreads bk h a row) ''spread_line'' = Some (oc_point ho)"
    and "map_of (add_spreads bk h a row) ''home_spread_odds'' = Some (oc_price ho)"
  using assms
  by (simp_all add: add_spreads_def update_conv' map_of_setdefault Let_def split: option.splits)

lemma add_spreads_away:
  assumes "find_market bk ''spreads'' = Some m" and "find_outcome m a = Some ao"
  shows "map_of (add_spreads bk h a row) ''away_spread_odds'' = Some (oc_price ao)"
    and "find_outcome m h = None \<Longrightarrow> map_of row ''spread_line'' = None \<Longrightarrow>
         map_of (add_spreads bk h a row) ''spread_line'' = Some (oc_point ao)"
  using assms
  by (simp_all add: add_spreads_def update_conv' map_of_setdefault Let_def split: option.splits)

lemma add_totals_over:
  assumes "find_market bk ''totals'' = Some m" and "find_outcome m ''Over'' = Some oo"
  shows "map_of (add_totals bk row) ''total_line'' = Some (oc_point oo)"
    and "map_of (add_totals bk row) ''over_odds'' = Some (oc_price oo)"
  using assms
  by (simp_all add: add_totals_def update_conv' map_of_setdefault Let_def split: option.splits)

lemma add_totals_under:
  assumes "find_market bk ''totals'' = Some m" and "find_outcome m ''Under'' = Some uo"
  shows "map_of (add_totals bk row) ''under_odds'' = Some (oc_price uo)"
    and "find_outcome m ''Over'' = None \<Longrightarrow> map_of row ''total_line'' = None \<Longrightarrow>
         map_of (add_totals bk row) ''total_line'' = Some (oc_point uo)"
  using assms
  by (simp_all add: add_totals_def update_conv' map_of_setdefault Let_def split: option.splits)

lemma event_row_unfold:
  assumes "event_row pref ev = Some row"
    and "ev_home_team ev = Some home" and "away_of ev = Some away"
    and "select_bookmaker (ev_bookmakers ev) pref = Some bk"
  shows "row = add_totals bk (add_spreads bk home away (add_moneylines bk home away
           [(''home_team'', cell_of (normalize_team (Some home))),
            (''away_team'', cell_of (normalize_team (Some away))),
            (''commence_time'', cell_of (ev_commence_time ev)),
            (''odds_source'', Str ''odds_api'')]))"
  using assms by (simp add: event_row_def Let_def split: if_splits)

text \<open>
  C7. For an event that the extractor keeps, with home team \<open>home\<close>, away team \<open>away\<close> and
  chosen bookmaker \<open>bk\<close>: when the spreads market has an outcome for the home team,
  \<^verbatim>\<open>spread_line\<close> is that outcome's point and \<^verbatim>\<open>home_spread_odds\<close> its price, whatever the
  away side reports; an outcome for the away team gives \<^verbatim>\<open>away_spread_odds\<close> its price, and
  gives \<^verbatim>\<open>spread_line\<close> its point only when the market has no outcome for the home team.
  The totals market does the same with the outcomes named Over and Under.
\<close>

theorem extractor_line_precedence:
  assumes "event_row pref ev = Some row"
    and "ev_home_team ev = Some home" and "away_of ev = Some away"
    and "select_bookmaker (ev_bookmakers ev) pref = Some bk"
  shows
   "(\<forall>m ho. find_market bk ''spreads'' = Some m \<and> find_outcome m home = Some ho \<longrightarrow>
        map_of row ''spread_line'' = Some (oc_point ho) \<and>
        map_of row ''home_spread_odds'' = Some (oc_price ho)) \<and>
    (\<forall>m ao. find_market bk ''spreads'' = Some m \<and> find_outcome m away = Some ao \<longrightarrow>
        map_of row ''away_spread_odds'' = Some (oc_price ao) \<and>
        (find_outcome m home = None \<longrightarrow> map_of row ''spread_line'' = Some (oc_point ao))) \<and>
    (\<forall>m oo. find_market bk ''totals'' = Some m \<and> find_outcome m ''Over'' = Some oo \<longrightarrow>
        map_of row ''total_line'' = Some (oc_point oo) \<and>
        map_of row ''over_odds'' = Some (oc_price oo)) \<and>
    (\<forall>m uo. find_market bk ''totals'' = Some m \<and> find_outcome m ''Under'' = Some uo \<longrightarrow>
        map_of row ''under_odds'' = Some (oc_price uo) \<and>
        (find_outcome m ''Over'' = None \<longrightarrow> map_of row ''total_line'' = Some (oc_point uo)))"
proof -
  let ?r0 = "[(''home_team'', cell_of (normalize_team (Some home))),
            (''away_team'', cell_of (normalize_team (Some away))),
            (''commence_time'', cell_of (ev_commence_time ev)),
            (''odds_source'', Str ''odds_api'')]"
  let ?r1 = "add_moneylines bk home away ?r0"
  let ?r2 = "add_spreads bk home away ?r1"
  have row: "row = add_totals bk ?r2"
    using event_row_unfold [OF assms] .
  have r1: "map_of ?r1 ''spread_line'' = None"
    by (simp add: map_of_add_moneylines_other)
  have r2: "map_of ?r2 ''total_line'' = None"
    by (simp add: map_of_add_moneylines_other map_of_add_spreads_other)
  have sp: "map_of row k = map_of ?r2 k"
    if "k \<noteq> ''total_line''" "k \<noteq> ''over_odds''" "k \<noteq> ''under_odds''" for k
    using that by (simp add: row map_of_add_totals_other)
  show ?thesis
  proof (intro conjI allI impI; (elim conjE)?)
    fix m ho assume "find_market bk ''spreads'' = Some m" "find_outcome m home = Some ho"
    then show "map_of row ''spread_line'' = Some (oc_point ho)"
      "map_of row ''home_spread_odds'' = Some (oc_price ho)"
      using add_spreads_home [of bk m home ho away ?r1] by (simp_all add: sp)
  next
    fix m ao assume a: "find_market bk ''spreads'' = Some m" "find_outcome m away = Some ao"
    then show "map_of row ''away_spread_odds'' = Some (oc_price ao)"
      using add_spreads_away(1) [of bk m away ao home ?r1] by (simp add: sp)
    assume "find_outcome m home = None"
    with a r1 show "map_of row ''spread_line'' = Some (oc_point ao)"
      using add_spreads_away(2) [of bk m away ao home ?r1] by (simp add: sp)
  next
    fix m oo assume "find_market bk ''totals'' = Some m" "find_outcome m ''Over'' = Some oo"
    then show "map_of row ''total_line'' = Some (oc_point oo)"
      "map_of row ''over_odds'' = Some (oc_price oo)"
      using add_totals_over [of bk m oo ?r2] by (simp_all add: row)
  next
    fix m uo assume a: "find_market bk ''totals'' = Some m" "find_outcome m ''Under'' = Some uo"
    then show "map_of row ''under_odds'' = Some (oc_price uo)"
      using add_totals_under(1) [of bk m uo ?r2] by (simp add: row)
    assume "find_outcome m ''Over'' = None"
    with a r2 show "map_of row ''total_line'' = Some (oc_point uo)"
      using add_totals_under(2) [of bk m uo ?r2] by (simp add: row)
  qed
qed

theorem extractor_line_precedence_witness:
  "event_row (Some ''pinnacle'') example_event = Some example_event_row \<and>
   map_of example_event_row ''spread_line'' = Some (Num (- 3)) \<and>
   map_of example_event_row ''home_spread_odds'' = Some (Num (- 105)) \<and>
   map_of example_event_row ''away_spread_odds'' = Some (Num (- 110)) \<and>
   map_of example_event_row ''total_line'' = Some (Num (89 / 2)) \<and>
   map_of example_event_row ''under_odds'' = Some (Num (- 108))"
proof -
  let ?sp = "\<lparr>mk_key = Some ''spreads'',
          mk_outcomes = [\<lparr>oc_name = Some ''Denver Broncos'', oc_price = Num (- 110), oc_point = Num (7 / 2)\<rparr>,
                         \<lparr>oc_name = Some ''Kansas City Chiefs'', oc_price = Num (- 105), oc_point = Num (- 3)\<rparr>]\<rparr>"
  let ?tt = "\<lparr>mk_key = Some ''totals'',
          mk_outcomes = [\<lparr>oc_name = Some ''Under'', oc_price = Num (- 108), oc_point = Num (89 / 2)\<rparr>]\<rparr>"
  have h1: "event_row (Some ''pinnacle'') example_event = Some example_event_row"
    by code_simp
  have h2: "ev_home_team example_event = Some ''Kansas City Chiefs''"
    by (simp add: example_event_def)
  have h3: "away_of example_event = Some ''Denver Broncos''"
    by code_simp
  have h4: "select_bookmaker (ev_bookmakers example_event) (Some ''pinnacle'') = Some example_bookmaker"
    by code_simp
  have m1: "find_market example_bookmaker ''spreads'' = Some ?sp"
    by code_simp
  have m2: "find_market example_bookmaker ''totals'' = Some ?tt"
    by code_simp
  have o1: "find_outcome ?sp ''Kansas City Chiefs'' =
      Some \<lparr>oc_name = Some ''Kansas City Chiefs'', oc_price = Num (- 105), oc_point = Num (- 3)\<rparr>"
    by code_simp
  have o2: "find_outcome ?sp ''Denver Broncos'' =
      Some \<lparr>oc_name = Some ''Denver Broncos'', oc_price = Num (- 110), oc_point = Num (7 / 2)\<rparr>"
    by code_simp
  have o3: "find_outcome ?tt ''Under'' =
      Some \<lparr>oc_name = Some ''Under'', oc_price = Num (- 108), oc_point = Num (89 / 2)\<rparr>"
    by code_simp
  have o4: "find_outcome ?tt ''Over'' = None"
    by code_simp
  from extractor_line_precedence [OF h1 h2 h3 h4] m1 m2 o1 o2 o3 o4 h1
  show ?thesis by fastforce
qed

section \<open>Properties of the historical loader\<close>

lemma prepare_historical_lines_unreadable:
  "p \<noteq> [] \<Longrightarrow> fs p = Some Unreadable \<Longrightarrow>
   prepare_historical_lines fs p ks = Inl CsvReadError"
  by (simp add: prepare_historical_lines_def read_csv_def)

lemma prepare_historical_lines_error:
  "prepare_historical_lines fs p ks = Inl err \<longleftrightarrow>
     p \<noteq> [] \<and> fs p = Some Unreadable \<and> err = CsvReadError"
  by (auto simp: prepare_historical_lines_def read_csv_def Let_def
      split: csv_file.splits option.splits if_splits)

lemma map_of_filter_keys:
  "map_of (filter (\<lambda>(k, v). P k) m) c = (if P c then map_of m c else None)"
  by (induction m) auto

lemma fromkeys_distinct: "distinct xs \<Longrightarrow> fromkeys xs = xs"
  by (simp add: fromkeys_def distinct_remdups_id)

lemma keep_cols_distinct: "distinct (key_cols @ filter P ODDS_VALUE_COLUMNS)"
  by (auto simp: key_cols_def ODDS_VALUE_COLUMNS_def)

lemma zip_map_map_same: "zip (map f xs) (map g xs) = map (\<lambda>x. (f x, g x)) xs"
  by (induction xs) auto

lemma filter_label_map:
  "map snd (filter (\<lambda>(l, v). l = k) (map (\<lambda>c. (f c, g c)) cs)) = map g (filter (\<lambda>c. f c = k) cs)"
  by (induction cs) auto

lemma filter_eq_map: "filter (\<lambda>l. l = k) (map f cs) = map (\<lambda>c. k) (filter (\<lambda>c. f c = k) cs)"
  by (induction cs) auto

lemma rename_columns_filter:
  "rename_columns (filter (\<lambda>(k, v). k \<in> set (columns fr)) m) fr = rename_columns m fr"
proof -
  let ?m' = "filter (\<lambda>(k, v). k \<in> set (columns fr)) m"
  let ?ren = "\<lambda>c. case map_of m c of None \<Rightarrow> c | Some v \<Rightarrow> v"
  let ?ren' = "\<lambda>c. case map_of ?m' c of None \<Rightarrow> c | Some v \<Rightarrow> v"
  have eq: "?ren' c = ?ren c" if "c \<in> set (columns fr)" for c
    using that by (simp add: map_of_filter_keys)
  have cols: "map ?ren' (columns fr) = map ?ren (columns fr)"
    using eq by (intro map_cong) auto
  show ?thesis
    unfolding rename_columns_def Let_def using cols by simp
qed

lemma loader_table:
  fixes fr :: frame and ren :: "string \<Rightarrow> string" and ks :: "string list"
  defines "t \<equiv> \<lparr>labels = map ren (columns fr), cells = map (\<lambda>r. map r (columns fr)) (rows fr)\<rparr>"
  shows "select_labels ks (map_label ''away_team'' f (map_label ''home_team'' f t)) =
     \<lparr>labels = concat (map (\<lambda>k. map (\<lambda>c. k) (filter (\<lambda>c. ren c = k) (columns fr))) ks),
      cells = map (\<lambda>r. concat (map (\<lambda>k. map (\<lambda>c. if k = ''home_team'' \<or> k = ''away_team''
                                                    then f (r c) else r c)
                                         (filter (\<lambda>c. ren c = k) (columns fr))) ks)) (rows fr)\<rparr>"
proof -
  let ?cs = "columns fr"
  let ?N = "\<lambda>c v. if ren c = ''home_team'' \<or> ren c = ''away_team'' then f v else v"
  have t1: "map_label ''home_team'' f t =
      \<lparr>labels = map ren ?cs,
       cells = map (\<lambda>r. map (\<lambda>c. if ren c = ''home_team'' then f (r c) else r c) ?cs) (rows fr)\<rparr>"
    unfolding map_label_def t_def by (simp add: zip_map_map_same comp_def)
  have t2: "map_label ''away_team'' f (map_label ''home_team'' f t) =
      \<lparr>labels = map ren ?cs, cells = map (\<lambda>r. map (\<lambda>c. ?N c (r c)) ?cs) (rows fr)\<rparr>"
    unfolding t1 unfolding map_label_def by (auto simp: zip_map_map_same comp_def)
  have sel: "concat (map (\<lambda>k. map snd (filter (\<lambda>(l, v). l = k)
                 (zip (map ren ?cs) (map (\<lambda>c. ?N c (r c)) ?cs)))) ks) =
        concat (map (\<lambda>k. map (\<lambda>c. if k = ''home_team'' \<or> k = ''away_team'' then f (r c) else r c)
                       (filter (\<lambda>c. ren c = k) ?cs)) ks)" for r
  proof -
    have "map snd (filter (\<lambda>(l, v). l = k) (zip (map ren ?cs) (map (\<lambda>c. ?N c (r c)) ?cs))) =
          map (\<lambda>c. if k = ''home_team'' \<or> k = ''away_team'' then f (r c) else r c)
            (filter (\<lambda>c. ren c = k) ?cs)" for k
      unfolding zip_map_map_same filter_label_map
      by (intro map_cong) auto
    then show ?thesis by simp
  qed
  show ?thesis
    unfolding t2 select_labels_def
    by (simp add: sel filter_eq_map comp_def)
qed

lemma prepare_historical_lines_csv:
  assumes a: "p \<noteq> [] \<and> fs p = Some (Csv fr)"
  shows "prepare_historical_lines fs p key_cols =
     (let ren = (\<lambda>c. case map_of HISTORICAL_NAME_MAP c of None \<Rightarrow> c | Some v \<Rightarrow> v);
          keep_cols = key_cols @ filter (\<lambda>c. c \<in> ren ` set (columns fr)) ODDS_VALUE_COLUMNS
      in if \<exists>k \<in> set key_cols. k \<notin> ren ` set (columns fr) then Inr None
         else Inr (Some
                 \<lparr>labels = concat (map (\<lambda>k. map (\<lambda>c. k) (filter (\<lambda>c. ren c = k) (columns fr)))
                                    keep_cols),
                  cells = map (\<lambda>r. concat (map (\<lambda>k. map (\<lambda>c. if k = ''home_team'' \<or> k = ''away_team''
                                                                then normalize_cell (r c) else r c)
                                                     (filter (\<lambda>c. ren c = k) (columns fr)))
                                            keep_cols))
                            (rows fr)\<rparr>))"
proof -
  define ren where "ren = (\<lambda>c. case map_of HISTORICAL_NAME_MAP c of None \<Rightarrow> c | Some v \<Rightarrow> v)"
  define t where "t = \<lparr>labels = map ren (columns fr), cells = map (\<lambda>r. map r (columns fr)) (rows fr)\<rparr>"
  define keep where "keep = key_cols @ filter (\<lambda>c. c \<in> ren ` set (columns fr)) ODDS_VALUE_COLUMNS"
  have rn: "rename_columns (filter (\<lambda>(k, v). k \<in> set (columns fr)) HISTORICAL_NAME_MAP) fr = t"
    unfolding rename_columns_filter unfolding rename_columns_def Let_def t_def ren_def ..
  have lt: "labels t = map ren (columns fr)"
    by (simp add: t_def)
  have lm: "labels (map_label c f h) = labels h" for c f h
    by (simp add: map_label_def)
  have keep: "fromkeys (key_cols @ filter (\<lambda>c. c \<in> set (map ren (columns fr))) ODDS_VALUE_COLUMNS) = keep"
    unfolding keep_def using fromkeys_distinct [OF keep_cols_distinct] by simp
  have mk: "filter (\<lambda>col. col \<notin> set (map ren (columns fr))) key_cols \<noteq> [] \<longleftrightarrow>
        (\<exists>k \<in> set key_cols. k \<notin> ren ` set (columns fr))"
    by (simp add: filter_empty_conv)
  have sel: "select_labels keep (map_label ''away_team'' normalize_cell
               (map_label ''home_team'' normalize_cell t)) =
     \<lparr>labels = concat (map (\<lambda>k. map (\<lambda>c. k) (filter (\<lambda>c. ren c = k) (columns fr))) keep),
      cells = map (\<lambda>r. concat (map (\<lambda>k. map (\<lambda>c. if k = ''home_team'' \<or> k = ''away_team''
                                                    then normalize_cell (r c) else r c)
                                         (filter (\<lambda>c. ren c = k) (columns fr))) keep)) (rows fr)\<rparr>"
    unfolding t_def by (rule loader_table)
  have res: "prepare_historical_lines fs p key_cols =
      (if \<exists>k \<in> set key_cols. k \<notin> ren ` set (columns fr) then Inr None
       else Inr (Some (select_labels keep (map_label ''away_team'' normalize_cell
               (map_label ''home_team'' normalize_cell t)))))"
    using a mk by (simp add: prepare_historical_lines_def read_csv_def rn Let_def lt lm keep
        del: set_map)
  show ?thesis
    unfolding Let_def ren_def [symmetric] keep_def [symmetric] res sel by simp
qed

text \<open>
  C9, as the code has it. \<^verbatim>\<open>_prepare_historical_lines\<close> returns \<^verbatim>\<open>None\<close> when the path is
  empty or nothing exists there, and when a key column is absent after the renaming. A
  path that exists and cannot be read is not caught: the error of \<^verbatim>\<open>pd.read_csv\<close> leaves
  the loader. Otherwise the result is the table projected to the key columns and the
  odds-value labels the renamed file has: for each of these labels in turn, every column
  of the file that is renamed to it (both of them when two are), the team columns
  normalized, and no other column.
\<close>

theorem prepare_historical_lines_spec:
  "(p = [] \<or> fs p = None \<longrightarrow> prepare_historical_lines fs p key_cols = Inr None) \<and>
   (p \<noteq> [] \<and> fs p = Some Unreadable \<longrightarrow>
      prepare_historical_lines fs p key_cols = Inl CsvReadError) \<and>
   (\<forall>fr. p \<noteq> [] \<and> fs p = Some (Csv fr) \<longrightarrow>
      (let ren = (\<lambda>c. case map_of HISTORICAL_NAME_MAP c of None \<Rightarrow> c | Some v \<Rightarrow> v);
           keep_cols = key_cols @ filter (\<lambda>c. c \<in> ren ` set (columns fr)) ODDS_VALUE_COLUMNS
       in if \<exists>k \<in> set key_cols. k \<notin> ren ` set (columns fr)
          then prepare_historical_lines fs p key_cols = Inr None
          else prepare_historical_lines fs p key_cols = Inr (Some
                 \<lparr>labels = concat (map (\<lambda>k. map (\<lambda>c. k) (filter (\<lambda>c. ren c = k) (columns fr)))
                                    keep_cols),
                  cells = map (\<lambda>r. concat (map (\<lambda>k. map (\<lambda>c. if k = ''home_team'' \<or> k = ''away_team''
                                                                then normalize_cell (r c) else r c)
                                                     (filter (\<lambda>c. ren c = k) (columns fr)))
                                            keep_cols))
                            (rows fr)\<rparr>)))"
proof (intro conjI allI impI)
  assume "p = [] \<or> fs p = None"
  then show "prepare_historical_lines fs p key_cols = Inr None"
    by (auto simp: prepare_historical_lines_def)
next
  assume "p \<noteq> [] \<and> fs p = Some Unreadable"
  then show "prepare_historical_lines fs p key_cols = Inl CsvReadError"
    by (simp add: prepare_historical_lines_unreadable)
next
  fix fr
  assume a: "p \<noteq> [] \<and> fs p = Some (Csv fr)"
  show "let ren = (\<lambda>c. case map_of HISTORICAL_NAME_MAP c of None \<Rightarrow> c | Some v \<Rightarrow> v);
           keep_cols = key_cols @ filter (\<lambda>c. c \<in> ren ` set (columns fr)) ODDS_VALUE_COLUMNS
       in if \<exists>k \<in> set key_cols. k \<notin> ren ` set (columns fr)
          then prepare_historical_lines fs p key_cols = Inr None
          else prepare_historical_lines fs p key_cols = Inr (Some
                 \<lparr>labels = concat (map (\<lambda>k. map (\<lambda>c. k) (filter (\<lambda>c. ren c = k) (columns fr)))
                                    keep_cols),
                  cells = map (\<lambda>r. concat (map (\<lambda>k. map (\<lambda>c. if k = ''home_team'' \<or> k = ''away_team''
                                                                then normalize_cell (r c) else r c)
                                                     (filter (\<lambda>c. ren c = k) (columns fr)))
                                            keep_cols))
                            (rows fr)\<rparr>)"
    unfolding prepare_historical_lines_csv [where p = p and fs = fs and fr = fr, OF a] Let_def
    by simp
qed

theorem prepare_historical_lines_spec_witness:
  "prepare_historical_lines example_files ''lines.csv'' key_cols = Inr (Some
     \<lparr>labels = [''season'', ''week'', ''home_team'', ''away_team'', ''spread_line''],
      cells = [[Num 2023, Num 1, Str ''KC'', Str ''DEN'', Num (- 7 / 2)]]\<rparr>) \<and>
   prepare_historical_lines example_files ''both.csv'' key_cols = Inr (Some
     \<lparr>labels = [''season'', ''week'', ''home_team'', ''away_team'', ''spread_line'',
                ''spread_line'', ''total_line''],
      cells = [[Num 2023, Num 1, Str ''KC'', Str ''DEN'', Num (- 7 / 2), Num (- 3), Num 45]]\<rparr>) \<and>
   prepare_historical_lines example_files ''absent.csv'' key_cols = Inr None \<and>
   prepare_historical_lines example_files ''locked.csv'' key_cols = Inl CsvReadError"
proof -
  let ?ren = "\<lambda>c. case map_of HISTORICAL_NAME_MAP c of None \<Rightarrow> c | Some v \<Rightarrow> v"
  let ?keep = "\<lambda>fr. key_cols @ filter (\<lambda>c. c \<in> ?ren ` set (columns fr)) ODDS_VALUE_COLUMNS"
  let ?out = "\<lambda>fr. \<lparr>labels = concat (map (\<lambda>k. map (\<lambda>c. k) (filter (\<lambda>c. ?ren c = k) (columns fr)))
                                    (?keep fr)),
                  cells = map (\<lambda>r. concat (map (\<lambda>k. map (\<lambda>c. if k = ''home_team'' \<or> k = ''away_team''
                                                                then normalize_cell (r c) else r c)
                                                     (filter (\<lambda>c. ?ren c = k) (columns fr)))
                                            (?keep fr)))
                            (rows fr)\<rparr>"
  have f1: "''lines.csv'' \<noteq> [] \<and> example_files ''lines.csv'' = Some (Csv example_csv)"
    by (simp add: example_files_def)
  have k1: "\<not> (\<exists>k \<in> set key_cols. k \<notin> ?ren ` set (columns example_csv))"
    by code_simp
  have o1: "?out example_csv =
     \<lparr>labels = [''season'', ''week'', ''home_team'', ''away_team'', ''spread_line''],
      cells = [[Num 2023, Num 1, Str ''KC'', Str ''DEN'', Num (- 7 / 2)]]\<rparr>"
    by code_simp
  have f2: "''both.csv'' \<noteq> [] \<and> example_files ''both.csv'' = Some (Csv example_csv_two)"
    by (simp add: example_files_def)
  have k2: "\<not> (\<exists>k \<in> set key_cols. k \<notin> ?ren ` set (columns example_csv_two))"
    by code_simp
  have o2: "?out example_csv_two =
     \<lparr>labels = [''season'', ''week'', ''home_team'', ''away_team'', ''spread_line'',
                ''spread_line'', ''total_line''],
      cells = [[Num 2023, Num 1, Str ''KC'', Str ''DEN'', Num (- 7 / 2), Num (- 3), Num 45]]\<rparr>"
    by code_simp
  note s1 = prepare_historical_lines_spec [of "''lines.csv''" example_files]
  from s1 [THEN conjunct2, THEN conjunct2, rule_format, OF f1] k1
  have lines: "prepare_historical_lines example_files ''lines.csv'' key_cols =
      Inr (Some (?out example_csv))"
    unfolding Let_def by simp
  note s2 = prepare_historical_lines_spec [of "''both.csv''" example_files]
  from s2 [THEN conjunct2, THEN conjunct2, rule_format, OF f2] k2
  have both: "prepare_historical_lines example_files ''both.csv'' key_cols =
      Inr (Some (?out example_csv_two))"
    unfolding Let_def by simp
  have a: "example_files ''absent.csv'' = None"
    by (simp add: example_files_def)
  have l: "''locked.csv'' \<noteq> [] \<and> example_files ''locked.csv'' = Some Unreadable"
    by (simp add: example_files_def)
  note s3 = prepare_historical_lines_spec [of "''absent.csv''" example_files]
  from s3 [THEN conjunct1] a
  have absent: "prepare_historical_lines example_files ''absent.csv'' key_cols = Inr None"
    by blast
  note s4 = prepare_historical_lines_spec [of "''locked.csv''" example_files]
  from s4 [THEN conjunct2, THEN conjunct1] l
  have locked: "prepare_historical_lines example_files ''locked.csv'' key_cols = Inl CsvReadError"
    by blast
  show ?thesis
    unfolding lines both o1 o2 absent locked by simp
qed

text \<open>
  The claim as written fails where the file exists and cannot be read: the loader does not
  return \<^verbatim>\<open>None\<close> there.
\<close>

theorem prepare_historical_lines_unreadable_counterexample:
  "example_files ''locked.csv'' = Some Unreadable \<and>
   prepare_historical_lines example_files ''locked.csv'' key_cols \<noteq> Inr None"
  by (simp add: example_files_def prepare_historical_lines_unreadable)

section \<open>The message of the schema check\<close>

lemma sublist_join: "x \<in> set xs \<Longrightarrow> sublist x (join sep xs)"
proof (induction sep xs rule: join.induct)
  case (1 sep)
  then show ?case by simp
next
  case (2 sep y)
  then show ?case by simp
next
  case (3 sep y z zs)
  show ?case
  proof (cases "x = y")
    case True
    then show ?thesis by simp
  next
    case False
    with 3 have "sublist x (join sep (z # zs))" by simp
    then obtain ps ss where "join sep (z # zs) = ps @ x @ ss"
      by (auto simp: sublist_def)
    then have "join sep (y # z # zs) = (y @ sep @ ps) @ x @ ss" by simp
    then show ?thesis unfolding sublist_def by blast
  qed
qed

lemma sublist_repr_list: "x \<in> set xs \<Longrightarrow> sublist (repr_str x) (repr_list xs)"
proof -
  assume "x \<in> set xs"
  then have "sublist (repr_str x) (join '', '' (map repr_str xs))"
    by (intro sublist_join) simp
  then obtain ps ss where "join '', '' (map repr_str xs) = ps @ repr_str x @ ss"
    by (auto simp: sublist_def)
  then have "repr_list xs = (''['' @ ps) @ repr_str x @ (ss @ '']'')"
    by (simp add: repr_list_def)
  then show ?thesis unfolding sublist_def by blast
qed

lemma sublist_repr_str: "sublist x (repr_str x)"
  unfolding repr_str_def by (rule sublist_appendI)

lemma missing_columns_set:
  "set (missing_columns sch) = {c \<in> set key_cols. c \<notin> set (columns sch)}"
  by (auto simp: missing_columns_def key_cols_def)

section \<open>Deduplication of the live table\<close>

lemma same_key_refl: "same_key ks r r"
  by (simp add: same_key_def)

lemma same_key_sym: "same_key ks r s \<Longrightarrow> same_key ks s r"
  by (simp add: same_key_def)

lemma same_key_trans: "same_key ks r s \<Longrightarrow> same_key ks s t \<Longrightarrow> same_key ks r t"
  by (simp add: same_key_def)

lemma keep_last_subset: "set (keep_last ks xs) \<subseteq> set xs"
  by (induction xs) auto

lemma keep_last_covers:
  "x \<in> set xs \<Longrightarrow> \<exists>y \<in> set (keep_last ks xs). same_key ks x y"
proof (induction xs arbitrary: x)
  case Nil
  then show ?case by simp
next
  case (Cons r rs)
  show ?case
  proof (cases "x = r")
    case True
    show ?thesis
    proof (cases "\<exists>r' \<in> set rs. same_key ks r r'")
      case True
      then obtain r' where r': "r' \<in> set rs" "same_key ks r r'" by blast
      from Cons.IH [OF r'(1)] obtain y where "y \<in> set (keep_last ks rs)" "same_key ks r' y"
        by blast
      with r'(2) \<open>x = r\<close> True show ?thesis
        by (auto intro: same_key_trans)
    next
      case False
      with \<open>x = r\<close> show ?thesis by (auto intro: same_key_refl)
    qed
  next
    case False
    with Cons.prems have "x \<in> set rs" by simp
    from Cons.IH [OF this] show ?thesis by auto
  qed
qed

lemma keep_last_unique: "length (filter (same_key ks x) (keep_last ks xs)) \<le> 1"
proof (induction xs)
  case Nil
  then show ?case by simp
next
  case (Cons r rs)
  show ?case
  proof (cases "\<exists>r' \<in> set rs. same_key ks r r'")
    case True
    with Cons show ?thesis by simp
  next
    case False
    show ?thesis
    proof (cases "same_key ks x r")
      case True
      have "filter (same_key ks x) (keep_last ks rs) = []"
      proof (rule ccontr)
        assume "filter (same_key ks x) (keep_last ks rs) \<noteq> []"
        then obtain y where "y \<in> set (keep_last ks rs)" "same_key ks x y"
          by (auto simp: filter_empty_conv)
        with keep_last_subset [of ks rs] True have "y \<in> set rs" "same_key ks r y"
          by (auto intro: same_key_trans same_key_sym)
        with False show False by blast
      qed
      with False True show ?thesis by simp
    next
      case nk: False
      with False Cons show ?thesis by simp
    qed
  qed
qed

lemma keep_last_max:
  "sorted (map f xs) \<Longrightarrow> x \<in> set xs \<Longrightarrow> y \<in> set (keep_last ks xs) \<Longrightarrow>
   same_key ks x y \<Longrightarrow> f x \<le> f y"
proof (induction xs)
  case Nil
  then show ?case by simp
next
  case (Cons r rs)
  from Cons.prems(1) have srt: "sorted (map f rs)" and le: "\<forall>z \<in> set rs. f r \<le> f z"
    by simp_all
  show ?case
  proof (cases "\<exists>r' \<in> set rs. same_key ks r r'")
    case True
    with Cons.prems(3) have y: "y \<in> set (keep_last ks rs)" by simp
    show ?thesis
    proof (cases "x = r")
      case True
      from y keep_last_subset [of ks rs] have "y \<in> set rs" by blast
      with le True show ?thesis by simp
    next
      case False
      with Cons.prems(2) have "x \<in> set rs" by simp
      from Cons.IH [OF srt this y Cons.prems(4)] show ?thesis .
    qed
  next
    case False
    show ?thesis
    proof (cases "y \<in> set (keep_last ks rs)")
      case True
      show ?thesis
      proof (cases "x = r")
        case xr: True
        from True keep_last_subset [of ks rs] have "y \<in> set rs" by blast
        with le xr show ?thesis by simp
      next
        case xr: False
        with Cons.prems(2) have "x \<in> set rs" by simp
        from Cons.IH [OF srt this True Cons.prems(4)] show ?thesis .
      qed
    next
      case ny: False
      with False Cons.prems(3) have yr: "y = r" by simp
      have "x = r"
      proof (rule ccontr)
        assume "x \<noteq> r"
        with Cons.prems(2) have "x \<in> set rs" by simp
        moreover from Cons.prems(4) yr have "same_key ks r x" by (auto intro: same_key_sym)
        ultimately show False using False by blast
      qed
      with yr show ?thesis by simp
    qed
  qed
qed

lemma dedup_latest_rows:
  assumes "''commence_time'' \<in> set (columns latest) \<or> rows latest = []"
  shows "rows (dedup_latest latest) =
     keep_last [''home_team'', ''away_team'']
       (sort_key (\<lambda>r. sort_rank (r ''commence_time''))
          (filter (\<lambda>r. notna (r ''home_team'') \<and> notna (r ''away_team'')) (rows latest)))"
proof (cases "filter (\<lambda>r. notna (r ''home_team'') \<and> notna (r ''away_team'')) (rows latest) = []")
  case True
  then show ?thesis
    by (simp add: dedup_latest_def dropna_def Let_def empty_frame_def drop_duplicates_def
        sort_values_def)
next
  case False
  then have "rows latest \<noteq> []" by auto
  with assms have "''commence_time'' \<in> set (columns latest)" by blast
  with False show ?thesis
    by (auto simp: dedup_latest_def dropna_def Let_def empty_frame_def drop_duplicates_def
        sort_values_def)
qed

lemma event_row_commence_time:
  assumes "event_row pref ev = Some d"
  shows "''commence_time'' \<in> fst ` set d"
proof -
  from assms obtain bk h a r0 where d: "d = add_totals bk (add_spreads bk h a (add_moneylines bk h a r0))"
    and r0: "map_of r0 ''commence_time'' = Some (cell_of (ev_commence_time ev))"
    by (auto simp: event_row_def Let_def split: if_splits option.splits)
  have "map_of d ''commence_time'' = Some (cell_of (ev_commence_time ev))"
    by (simp add: d r0 map_of_add_totals_other map_of_add_spreads_other
        map_of_add_moneylines_other)
  then show ?thesis
    by (metis map_of_eq_None_iff option.distinct(1))
qed

lemma latest_odds_commence_time:
  "''commence_time'' \<in> set (columns (latest_odds e api_key pref)) \<or>
   rows (latest_odds e api_key pref) = []"
proof (cases "api_key \<noteq> [] \<and> provider e \<noteq> None")
  case False
  then show ?thesis
    by (auto simp: latest_odds_def DataFrame_columns_def)
next
  case True
  then obtain events where ev: "provider e = Some events" by blast
  let ?ds = "List.map_filter (event_row pref) events"
  show ?thesis
  proof (cases "?ds = []")
    case True
    with ev \<open>api_key \<noteq> [] \<and> provider e \<noteq> None\<close> show ?thesis
      by (simp add: latest_odds_def odds_json_to_frame_def DataFrame_columns_def)
  next
    case False
    then obtain d where d: "d \<in> set ?ds" by (cases ?ds) auto
    then obtain ev' where "event_row pref ev' = Some d"
      by (auto simp: List.map_filter_def)
    then have "''commence_time'' \<in> fst ` set d" by (rule event_row_commence_time)
    with d have "''commence_time'' \<in> set (columns (DataFrame ?ds))"
      by (auto simp: DataFrame_def)
    with False ev True show ?thesis
      by (simp add: latest_odds_def odds_json_to_frame_def Let_def)
  qed
qed

lemma sort_rank_le:
  assumes "sort_rank a \<le> sort_rank b"
  shows "(a = NA \<longrightarrow> b = NA) \<and> (\<forall>t u. a = Str t \<and> b = Str u \<longrightarrow> t \<le> u)"
  using assms
  by (cases a; cases b) (auto simp: sort_rank_def less_eq_prod_def)

text \<open>
  C6, as the code has it. Before the merge the live rows without a home or an away team
  are dropped, and of the remaining rows exactly one per pair of teams is kept, one of
  those that come last under the order of \<^verbatim>\<open>sort_values("commence_time")\<close>: the order of
  the timestamps, with a row that has no \<^verbatim>\<open>commence_time\<close> after all dated rows. So the
  kept row is undated when the pair has an undated row, and when it is dated, no row of
  the pair is later. The deduplication runs when the live table has rows and a
  \<^verbatim>\<open>commence_time\<close> column, which the extractor's table always has (last part). The proof
  uses of the sort only that its result is sorted and has the same rows.
\<close>

theorem dedup_latest_spec:
  "(''commence_time'' \<in> set (columns latest) \<or> rows latest = [] \<longrightarrow>
     (let complete = filter (\<lambda>r. notna (r ''home_team'') \<and> notna (r ''away_team'')) (rows latest);
          kept = rows (dedup_latest latest)
      in set kept \<subseteq> set complete \<and>
         (\<forall>r \<in> set complete.
            length (filter (same_key [''home_team'', ''away_team''] r) kept) = 1) \<and>
         (\<forall>r \<in> set complete. \<forall>s \<in> set kept.
            same_key [''home_team'', ''away_team''] r s \<longrightarrow>
            sort_rank (r ''commence_time'') \<le> sort_rank (s ''commence_time'')) \<and>
         (\<forall>r \<in> set complete. \<forall>s \<in> set kept.
            same_key [''home_team'', ''away_team''] r s \<longrightarrow>
            (r ''commence_time'' = NA \<longrightarrow> s ''commence_time'' = NA) \<and>
            (\<forall>t u. r ''commence_time'' = Str t \<and> s ''commence_time'' = Str u \<longrightarrow> t \<le> u)))) \<and>
   (''commence_time'' \<in> set (columns (latest_odds e api_key pref)) \<or>
    rows (latest_odds e api_key pref) = [])"
proof (intro conjI impI)
  assume a: "''commence_time'' \<in> set (columns latest) \<or> rows latest = []"
  let ?ks = "[''home_team'', ''away_team'']"
  let ?f = "\<lambda>r. sort_rank (r ''commence_time'')"
  let ?complete = "filter (\<lambda>r. notna (r ''home_team'') \<and> notna (r ''away_team'')) (rows latest)"
  let ?sorted = "sort_key ?f ?complete"
  have rows: "rows (dedup_latest latest) = keep_last ?ks ?sorted"
    using dedup_latest_rows [OF a] .
  have sub: "set (keep_last ?ks ?sorted) \<subseteq> set ?complete"
    using keep_last_subset [of ?ks ?sorted] by simp
  have one: "length (filter (same_key ?ks r) (keep_last ?ks ?sorted)) = 1"
    if "r \<in> set ?complete" for r
  proof -
    from that have "r \<in> set ?sorted" by simp
    from keep_last_covers [OF this, of ?ks]
    have "filter (same_key ?ks r) (keep_last ?ks ?sorted) \<noteq> []"
      by (auto simp: filter_empty_conv)
    then have "length (filter (same_key ?ks r) (keep_last ?ks ?sorted)) \<noteq> 0" by simp
    with keep_last_unique [of ?ks r ?sorted] show ?thesis by linarith
  qed
  have mx: "?f r \<le> ?f s"
    if "r \<in> set ?complete" "s \<in> set (keep_last ?ks ?sorted)" "same_key ?ks r s" for r s
  proof -
    have "sorted (map ?f ?sorted)" by (rule sorted_sort_key)
    moreover from that(1) have "r \<in> set ?sorted" by simp
    ultimately show ?thesis using that(2,3) by (rule keep_last_max)
  qed
  have dated: "(r ''commence_time'' = NA \<longrightarrow> s ''commence_time'' = NA) \<and>
      (\<forall>t u. r ''commence_time'' = Str t \<and> s ''commence_time'' = Str u \<longrightarrow> t \<le> u)"
    if "r \<in> set ?complete" "s \<in> set (keep_last ?ks ?sorted)" "same_key ?ks r s" for r s
    using mx [OF that] by (rule sort_rank_le)
  show "let complete = ?complete; kept = rows (dedup_latest latest)
      in set kept \<subseteq> set complete \<and>
         (\<forall>r \<in> set complete. length (filter (same_key ?ks r) kept) = 1) \<and>
         (\<forall>r \<in> set complete. \<forall>s \<in> set kept. same_key ?ks r s \<longrightarrow>
            sort_rank (r ''commence_time'') \<le> sort_rank (s ''commence_time'')) \<and>
         (\<forall>r \<in> set complete. \<forall>s \<in> set kept. same_key ?ks r s \<longrightarrow>
            (r ''commence_time'' = NA \<longrightarrow> s ''commence_time'' = NA) \<and>
            (\<forall>t u. r ''commence_time'' = Str t \<and> s ''commence_time'' = Str u \<longrightarrow> t \<le> u))"
    unfolding Let_def rows
  proof (intro conjI ballI impI)
    show "set (keep_last ?ks ?sorted) \<subseteq> set ?complete" by (rule sub)
  next
    fix r assume "r \<in> set ?complete"
    then show "length (filter (same_key ?ks r) (keep_last ?ks ?sorted)) = 1" by (rule one)
  next
    fix r s
    assume "r \<in> set ?complete" "s \<in> set (keep_last ?ks ?sorted)" "same_key ?ks r s"
    then show "sort_rank (r ''commence_time'') \<le> sort_rank (s ''commence_time'')" by (rule mx)
  next
    fix r s
    assume "r \<in> set ?complete" "s \<in> set (keep_last ?ks ?sorted)" "same_key ?ks r s"
    then show "r ''commence_time'' = NA \<Longrightarrow> s ''commence_time'' = NA"
      using dated by blast
  next
    fix r s
    assume "r \<in> set ?complete" "s \<in> set (keep_last ?ks ?sorted)" "same_key ?ks r s"
    then show "\<forall>t u. r ''commence_time'' = Str t \<and> s ''commence_time'' = Str u \<longrightarrow> t \<le> u"
      using dated by blast
  qed
next
  show "''commence_time'' \<in> set (columns (latest_odds e api_key pref)) \<or>
    rows (latest_odds e api_key pref) = []"
    by (rule latest_odds_commence_time)
qed

theorem dedup_latest_spec_witness:
  "length (filter (same_key [''home_team'', ''away_team''] (row_of_dict example_quote_early))
      (rows (dedup_latest example_latest))) = 1 \<and>
   to_lists (dedup_latest example_latest) =
     [[Str ''KC'', Str ''DEN'', Str ''2023-09-17T17:00:00Z'', Str ''odds_api'', Num (- 140)]]"
proof -
  have c: "''commence_time'' \<in> set (columns example_latest) \<or> rows example_latest = []"
    by code_simp
  have m: "row_of_dict example_quote_early \<in>
      set (filter (\<lambda>r. notna (r ''home_team'') \<and> notna (r ''away_team'')) (rows example_latest))"
    by (simp add: example_latest_def DataFrame_def example_quote_early_def row_of_dict_def
        notna_def)
  note s1 = dedup_latest_spec [of example_latest, THEN conjunct1, rule_format, OF c,
      unfolded Let_def, THEN conjunct2, THEN conjunct1, rule_format, OF m]
  have "to_lists (dedup_latest example_latest) =
     [[Str ''KC'', Str ''DEN'', Str ''2023-09-17T17:00:00Z'', Str ''odds_api'', Num (- 140)]]"
    by code_simp
  with s1 show ?thesis by blast
qed

text \<open>
  The claim as written fails on a quote without \<^verbatim>\<open>commence_time\<close>: the extractor copies
  \<^verbatim>\<open>event.get("commence_time")\<close>, pandas sorts the null last, and the undated quote
  survives the dated one of the same pair.
\<close>

theorem dedup_latest_undated_counterexample:
  "map (\<lambda>r. r ''commence_time'')
     (rows (odds_json_to_frame [example_event_undated, example_event] None)) =
     [NA, Str ''2023-09-10T17:00:00Z''] \<and>
   to_lists (select_columns [''home_team'', ''away_team'', ''commence_time'']
      (dedup_latest (odds_json_to_frame [example_event_undated, example_event] None))) =
     [[Str ''KC'', Str ''DEN'', NA]]"
  by code_simp


section \<open>Frame lemmas\<close>

lemma find_eq: "find (\<lambda>c'. c' = c) cs = (if c \<in> set cs then Some c else None)"
  by (induction cs) auto

lemma left_join_no_right_columns:
  assumes "set (columns right) \<subseteq> set on" and "rows right = []"
  shows "left_join left right on sfx =
     \<lparr>columns = columns left,
      rows = map (\<lambda>r c. if c \<in> set (columns left) then r c else NA) (rows left)\<rparr>"
proof -
  from assms(1) have rc: "filter (\<lambda>c. c \<notin> set on) (columns right) = []"
    by (auto simp: filter_empty_conv)
  from assms(1) have sf: "suffixed left right on s = (\<lambda>c. c)" for s
    by (auto simp: suffixed_def fun_eq_iff)
  have jr: "joined_rows left right on = map (\<lambda>l. (l, \<lambda>_. NA)) (rows left)"
    using assms(2) by (simp add: joined_rows_def match_rows_def concat_map_singleton)
  show ?thesis
    by (simp add: left_join_def join_row_def rc jr sf find_eq fun_eq_iff)
qed

lemma add_missing_columns:
  "distinct cs \<Longrightarrow>
   fold (\<lambda>col m. if col \<notin> set (columns m) then assign_column col NA m else m) cs m =
     \<lparr>columns = columns m @ filter (\<lambda>c. c \<notin> set (columns m)) cs,
      rows = map (\<lambda>r c. if c \<in> set cs \<and> c \<notin> set (columns m) then NA else r c) (rows m)\<rparr>"
proof (induction cs arbitrary: m)
  case Nil
  then show ?case by simp
next
  case (Cons a cs)
  let ?m1 = "if a \<notin> set (columns m) then assign_column a NA m else m"
  have c1: "columns ?m1 = columns m @ (if a \<notin> set (columns m) then [a] else [])"
    by (simp add: assign_column_def)
  have r1: "rows ?m1 = map (\<lambda>r c. if c = a \<and> a \<notin> set (columns m) then NA else r c) (rows m)"
    by (auto simp: assign_column_def fun_eq_iff)
  from Cons.prems have d: "distinct cs" and a: "a \<notin> set cs" by simp_all
  have "fold (\<lambda>col m. if col \<notin> set (columns m) then assign_column col NA m else m) (a # cs) m =
        fold (\<lambda>col m. if col \<notin> set (columns m) then assign_column col NA m else m) cs ?m1"
    by simp
  also have "\<dots> = \<lparr>columns = columns ?m1 @ filter (\<lambda>c. c \<notin> set (columns ?m1)) cs,
      rows = map (\<lambda>r c. if c \<in> set cs \<and> c \<notin> set (columns ?m1) then NA else r c) (rows ?m1)\<rparr>"
    by (rule Cons.IH [OF d])
  also have "\<dots> = \<lparr>columns = columns m @ filter (\<lambda>c. c \<notin> set (columns m)) (a # cs),
      rows = map (\<lambda>r c. if c \<in> set (a # cs) \<and> c \<notin> set (columns m) then NA else r c) (rows m)\<rparr>"
  proof -
    have "columns ?m1 @ filter (\<lambda>c. c \<notin> set (columns ?m1)) cs =
          columns m @ filter (\<lambda>c. c \<notin> set (columns m)) (a # cs)"
      using a unfolding c1 by (auto intro: filter_cong)
    moreover have "map (\<lambda>r c. if c \<in> set cs \<and> c \<notin> set (columns ?m1) then NA else r c) (rows ?m1) =
          map (\<lambda>r c. if c \<in> set (a # cs) \<and> c \<notin> set (columns m) then NA else r c) (rows m)"
      using a unfolding c1 r1 by (auto simp: fun_eq_iff)
    ultimately show ?thesis by simp
  qed
  finally show ?case .
qed

section \<open>The schedule and the live table without a key\<close>

lemma distinct_ODDS: "distinct ODDS_VALUE_COLUMNS"
  by (simp add: ODDS_VALUE_COLUMNS_def)

lemma columns_normalize_schedule [simp]: "columns (normalize_schedule s) = columns s"
  by (simp add: normalize_schedule_def map_column_def)

lemma rows_normalize_schedule:
  "rows (normalize_schedule s) =
     map (\<lambda>r c. if c = ''home_team'' \<or> c = ''away_team'' then normalize_cell (r c) else r c) (rows s)"
  by (auto simp: normalize_schedule_def map_column_def fun_eq_iff)

lemma dedup_latest_no_key:
  "dedup_latest (latest_odds e [] pref) = DataFrame_columns [''home_team'', ''away_team'']"
  by (simp add: latest_odds_def dedup_latest_def dropna_def DataFrame_columns_def Let_def
      empty_frame_def)

section \<open>The backfill loop in closed form\<close>

lemma zip_map_same: "zip (map g xs) xs = map (\<lambda>x. (g x, x)) xs"
  by (induction xs) auto

lemma map_fst_zip_same_length: "length fl = length xs \<Longrightarrow> map (\<lambda>(f, r). f) (zip fl xs) = fl"
  by (induction fl xs rule: list_induct2) auto

lemma fill_step_closed:
  assumes "length fl = length (rows m)"
  shows "fill_step c (m, fl) =
     (\<lparr>columns = filter (\<lambda>x. x \<noteq> c @ ''_hist'') (columns m),
       rows = map (fill_row [c] (columns m)) (rows m)\<rparr>,
      map (\<lambda>(f, r). f \<or> fill_flag [c] (columns m) r) (zip fl (rows m)))"
proof (cases "c @ ''_hist'' \<in> set (columns m)")
  case False
  then have "filter (\<lambda>x. x \<noteq> c @ ''_hist'') (columns m) = columns m"
    by (auto simp: filter_id_conv)
  moreover from False have "fill_row [c] (columns m) = (\<lambda>r. r)"
    by (auto simp: fill_row_def fun_eq_iff)
  moreover from False have "fill_flag [c] (columns m) = (\<lambda>r. False)"
    by (auto simp: fill_flag_def fun_eq_iff)
  ultimately show ?thesis
    using False assms by (simp add: fill_step_def Let_def map_fst_zip_same_length)
next
  case True
  let ?hc = "c @ ''_hist''"
  let ?P = "\<lambda>r. isna (r c) \<and> notna (r ?hc)"
  have ff: "fill_flag [c] (columns m) = ?P"
    using True by (auto simp: fill_flag_def fun_eq_iff)
  have fr: "fill_row [c] (columns m) r = (\<lambda>x. if x = ?hc then NA else if x = c \<and> ?P r then r ?hc else r x)" for r
    using True by (auto simp: fill_row_def fun_eq_iff)
  show ?thesis
  proof (cases "\<exists>r \<in> set (rows m). ?P r")
    case ex: True
    then have ex': "\<exists>r \<in> set (rows m). isna (r c) \<and> notna (r ?hc)" .
    have a: "map (\<lambda>(b, r). if b then r(c := r ?hc) else r) (zip (map ?P (rows m)) (rows m)) =
          map (\<lambda>r. if ?P r then r(c := r ?hc) else r) (rows m)"
      by (simp add: zip_map_same)
    have b: "map (\<lambda>(f, b). f \<or> b) (zip fl (map ?P (rows m))) = map (\<lambda>(f, r). f \<or> ?P r) (zip fl (rows m))"
      by (simp add: zip_map2 case_prod_unfold)
    have any: "(\<exists>b \<in> set (map ?P (rows m)). b) = (\<exists>r \<in> set (rows m). ?P r)"
      by auto
    have "fill_step c (m, fl) =
        (drop_columns [?hc] (m\<lparr>rows := map (\<lambda>r. if ?P r then r(c := r ?hc) else r) (rows m)\<rparr>),
         map (\<lambda>(f, r). f \<or> ?P r) (zip fl (rows m)))"
      using True ex' by (simp add: fill_step_def Let_def any a b del: set_map)
    also have "drop_columns [?hc] (m\<lparr>rows := map (\<lambda>r. if ?P r then r(c := r ?hc) else r) (rows m)\<rparr>) =
        \<lparr>columns = filter (\<lambda>x. x \<noteq> ?hc) (columns m),
         rows = map (fill_row [c] (columns m)) (rows m)\<rparr>"
      by (auto simp: drop_columns_def fr fun_eq_iff)
    finally show ?thesis by (simp add: ff)
  next
    case nex: False
    then have 1: "map (\<lambda>(f, r). f \<or> ?P r) (zip fl (rows m)) = fl"
      using assms
      by (intro nth_equalityI) (auto simp: set_conv_nth)
    from nex have 2: "map (fill_row [c] (columns m)) (rows m) =
         map (\<lambda>r x. if x = ?hc then NA else r x) (rows m)"
      by (intro map_cong) (auto simp: fr fun_eq_iff)
    have any: "(\<exists>b \<in> set (map ?P (rows m)). b) = (\<exists>r \<in> set (rows m). ?P r)"
      by auto
    from nex have n2: "(\<exists>r \<in> set (rows m). ?P r) = False"
      by blast
    have "fill_step c (m, fl) = (drop_columns [?hc] m, fl)"
      using True by (simp add: fill_step_def Let_def any n2 del: set_map)
    then show ?thesis
      by (simp add: ff 1 2 drop_columns_def)
  qed
qed


lemma filter_hist_Cons:
  "filter (\<lambda>x. x \<notin> (\<lambda>c. c @ ''_hist'') ` set cs) (filter (\<lambda>x. x \<noteq> c @ ''_hist'') xs) =
   filter (\<lambda>x. x \<notin> (\<lambda>c. c @ ''_hist'') ` set (c # cs)) xs"
  by (induction xs) auto

lemma fill_row_Cons:
  assumes "c \<notin> set cs" and "c @ ''_hist'' \<notin> set cs" and "\<forall>x \<in> set cs. x @ ''_hist'' \<noteq> c"
    and "\<forall>x \<in> set cs. x @ ''_hist'' \<notin> set cs"
  shows "fill_row cs (filter (\<lambda>x. x \<noteq> c @ ''_hist'') cols) (fill_row [c] cols r) =
         fill_row (c # cs) cols r"
proof (rule ext)
  fix x
  let ?hn = "\<lambda>c. c @ ''_hist''"
  let ?cols1 = "filter (\<lambda>x. x \<noteq> c @ ''_hist'') cols"
  let ?r1 = "fill_row [c] cols r"
  have r1c: "?r1 y = r y" if "y \<noteq> c" "y \<noteq> ?hn c" for y
    using that by (simp add: fill_row_def)
  consider (a) "x = c" | (b) "x = ?hn c" | (c) "x \<in> set cs" | (d) "x \<in> ?hn ` set cs"
    | (e) "x \<noteq> c" "x \<noteq> ?hn c" "x \<notin> set cs" "x \<notin> ?hn ` set cs"
    by blast
  then show "fill_row cs ?cols1 ?r1 x = fill_row (c # cs) cols r x"
  proof cases
    case a
    have "c \<notin> ?hn ` set cs" using assms(3) by auto
    with a assms(1) show ?thesis
      by (simp add: fill_row_def)
  next
    case b
    have "?hn c \<notin> ?hn ` set cs" using assms(1) by auto
    with b assms(2) show ?thesis
      by (simp add: fill_row_def)
  next
    case c
    with assms have x: "x \<noteq> c" "x \<noteq> ?hn c" "?hn x \<noteq> c" "?hn x \<noteq> ?hn c" "x \<notin> ?hn ` set cs"
      by auto
    from x have "?r1 x = r x" "?r1 (?hn x) = r (?hn x)"
      by (simp_all add: r1c)
    with c x show ?thesis
      by (simp add: fill_row_def)
  next
    case d
    then obtain y where y: "y \<in> set cs" "x = ?hn y" by blast
    with assms have x: "x \<noteq> c" "x \<noteq> ?hn c" "x \<notin> set cs"
      by auto
    with d show ?thesis
      by (simp add: fill_row_def)
  next
    case e
    then show ?thesis
      by (simp add: fill_row_def)
  qed
qed

lemma fill_flag_Cons:
  assumes "c \<notin> set cs" and "c @ ''_hist'' \<notin> set cs" and "\<forall>x \<in> set cs. x @ ''_hist'' \<noteq> c"
  shows "(fill_flag [c] cols r \<or> fill_flag cs (filter (\<lambda>x. x \<noteq> c @ ''_hist'') cols) (fill_row [c] cols r)) =
         fill_flag (c # cs) cols r"
proof -
  let ?hn = "\<lambda>c. c @ ''_hist''"
  let ?cols1 = "filter (\<lambda>x. x \<noteq> c @ ''_hist'') cols"
  let ?r1 = "fill_row [c] cols r"
  have r1c: "?r1 y = r y" if "y \<noteq> c" "y \<noteq> ?hn c" for y
    using that by (simp add: fill_row_def)
  have "(?hn x \<in> set ?cols1 \<and> isna (?r1 x) \<and> notna (?r1 (?hn x))) =
        (?hn x \<in> set cols \<and> isna (r x) \<and> notna (r (?hn x)))" if "x \<in> set cs" for x
  proof -
    from that assms have x: "x \<noteq> c" "x \<noteq> ?hn c" "?hn x \<noteq> c" "?hn x \<noteq> ?hn c"
      by auto
    then have "?r1 x = r x" "?r1 (?hn x) = r (?hn x)"
      by (simp_all add: r1c)
    with x show ?thesis by simp
  qed
  then have "fill_flag cs ?cols1 ?r1 =
      (\<exists>x \<in> set cs. ?hn x \<in> set cols \<and> isna (r x) \<and> notna (r (?hn x)))"
    unfolding fill_flag_def by blast
  then show ?thesis
    by (auto simp: fill_flag_def)
qed


lemma fold_fill_step:
  assumes "distinct cs" and "\<forall>c \<in> set cs. c @ ''_hist'' \<notin> set cs"
    and "length fl = length (rows m)"
  shows "fold fill_step cs (m, fl) =
    (\<lparr>columns = filter (\<lambda>x. x \<notin> (\<lambda>c. c @ ''_hist'') ` set cs) (columns m),
      rows = map (fill_row cs (columns m)) (rows m)\<rparr>,
     map (\<lambda>(f, r). f \<or> fill_flag cs (columns m) r) (zip fl (rows m)))"
  using assms
proof (induction cs arbitrary: m fl)
  case Nil
  have "fill_row [] (columns m) = (\<lambda>r. r)"
    by (simp add: fill_row_def fun_eq_iff)
  moreover have "fill_flag [] (columns m) = (\<lambda>r. False)"
    by (simp add: fill_flag_def fun_eq_iff)
  ultimately show ?case
    using Nil by (simp add: map_fst_zip_same_length)
next
  case (Cons c cs)
  let ?cols1 = "filter (\<lambda>x. x \<noteq> c @ ''_hist'') (columns m)"
  let ?m1 = "\<lparr>columns = ?cols1, rows = map (fill_row [c] (columns m)) (rows m)\<rparr>"
  let ?fl1 = "map (\<lambda>(f, r). f \<or> fill_flag [c] (columns m) r) (zip fl (rows m))"
  from Cons.prems have d: "distinct cs" and c: "c \<notin> set cs"
    and h: "\<forall>x \<in> set cs. x @ ''_hist'' \<notin> set cs" and hc: "c @ ''_hist'' \<notin> set cs"
    and hc2: "\<forall>x \<in> set cs. x @ ''_hist'' \<noteq> c"
    and len: "length fl = length (rows m)"
    by auto
  have len1: "length ?fl1 = length (rows ?m1)"
    using len by simp
  have step: "fold fill_step (c # cs) (m, fl) = fold fill_step cs (?m1, ?fl1)"
    using fill_step_closed [OF len, of c] by simp
  have rws: "map (fill_row cs ?cols1) (map (fill_row [c] (columns m)) (rows m)) =
             map (fill_row (c # cs) (columns m)) (rows m)"
    by (simp add: fill_row_Cons [OF c hc hc2 h])
  have flg: "map (\<lambda>(f, r). f \<or> fill_flag cs ?cols1 r)
               (zip ?fl1 (map (fill_row [c] (columns m)) (rows m))) =
             map (\<lambda>(f, r). f \<or> fill_flag (c # cs) (columns m) r) (zip fl (rows m))"
  proof (rule nth_equalityI)
    show "length (map (\<lambda>(f, r). f \<or> fill_flag cs ?cols1 r)
               (zip ?fl1 (map (fill_row [c] (columns m)) (rows m)))) =
          length (map (\<lambda>(f, r). f \<or> fill_flag (c # cs) (columns m) r) (zip fl (rows m)))"
      using len by simp
  next
    fix i
    assume "i < length (map (\<lambda>(f, r). f \<or> fill_flag cs ?cols1 r)
               (zip ?fl1 (map (fill_row [c] (columns m)) (rows m))))"
    then have i: "i < length (rows m)" "i < length fl"
      using len by simp_all
    have "(fl ! i \<or> fill_flag [c] (columns m) (rows m ! i) \<or>
           fill_flag cs ?cols1 (fill_row [c] (columns m) (rows m ! i))) =
          (fl ! i \<or> fill_flag (c # cs) (columns m) (rows m ! i))"
      using fill_flag_Cons [OF c hc hc2, of "columns m" "rows m ! i"] by blast
    with i show "map (\<lambda>(f, r). f \<or> fill_flag cs ?cols1 r)
               (zip ?fl1 (map (fill_row [c] (columns m)) (rows m))) ! i =
          map (\<lambda>(f, r). f \<or> fill_flag (c # cs) (columns m) r) (zip fl (rows m)) ! i"
      by simp
  qed
  have "fold fill_step cs (?m1, ?fl1) =
    (\<lparr>columns = filter (\<lambda>x. x \<notin> (\<lambda>c. c @ ''_hist'') ` set cs) (columns ?m1),
      rows = map (fill_row cs (columns ?m1)) (rows ?m1)\<rparr>,
     map (\<lambda>(f, r). f \<or> fill_flag cs (columns ?m1) r) (zip ?fl1 (rows ?m1)))"
    by (rule Cons.IH [OF d h len1])
  also have "\<dots> =
    (\<lparr>columns = filter (\<lambda>x. x \<notin> (\<lambda>c. c @ ''_hist'') ` set (c # cs)) (columns m),
      rows = map (fill_row (c # cs) (columns m)) (rows m)\<rparr>,
     map (\<lambda>(f, r). f \<or> fill_flag (c # cs) (columns m) r) (zip fl (rows m)))"
    using rws flg filter_hist_Cons [of cs c "columns m"]
    by (simp del: set_simps image_insert map_map)
  finally show ?case
    unfolding step .
qed

section \<open>The historical merge\<close>

lemma suffixed_nil [simp]: "suffixed left right on [] c = c"
  by (simp add: suffixed_def)

lemma join_row_left_nil:
  "c \<in> set (columns left) \<Longrightarrow> join_row left right on ([], s) (l, r) c = l c"
  by (simp add: join_row_def find_eq)

lemma ODDS_not_key: "\<forall>c \<in> set ODDS_VALUE_COLUMNS. c \<notin> set key_cols"
  by (simp add: ODDS_VALUE_COLUMNS_def key_cols_def)

lemma ODDS_hist_not_ODDS: "\<forall>c \<in> set ODDS_VALUE_COLUMNS. c @ ''_hist'' \<notin> set ODDS_VALUE_COLUMNS"
  by (simp add: ODDS_VALUE_COLUMNS_def)

lemma ODDS_hist_not_source: "\<forall>c \<in> set ODDS_VALUE_COLUMNS. c @ ''_hist'' \<noteq> ''odds_source''"
  by (simp add: ODDS_VALUE_COLUMNS_def)

lemma source_not_ODDS: "''odds_source'' \<notin> set ODDS_VALUE_COLUMNS"
  by (simp add: ODDS_VALUE_COLUMNS_def)

lemma hist_right_columns:
  assumes "set (columns H) \<subseteq> set key_cols \<union> set ODDS_VALUE_COLUMNS"
  shows "set (filter (\<lambda>c. c \<notin> set key_cols) (columns H)) =
         set (columns H) \<inter> set ODDS_VALUE_COLUMNS"
  using assms ODDS_not_key by auto

lemma hist_suffixed:
  assumes "set ODDS_VALUE_COLUMNS \<subseteq> set (columns M)"
    and "c \<in> set (columns H)" and "c \<in> set ODDS_VALUE_COLUMNS"
  shows "suffixed M H key_cols s c = c @ s"
  using assms ODDS_not_key by (auto simp: suffixed_def)

lemma columns_hist_join:
  assumes h1: "set ODDS_VALUE_COLUMNS \<subseteq> set (columns M)"
    and h3: "set (columns H) \<subseteq> set key_cols \<union> set ODDS_VALUE_COLUMNS"
  shows "columns (left_join M H key_cols ([], ''_hist'')) =
         columns M @ map (\<lambda>c. c @ ''_hist'') (filter (\<lambda>c. c \<notin> set key_cols) (columns H))"
proof -
  have "map (suffixed M H key_cols ''_hist'') (filter (\<lambda>c. c \<notin> set key_cols) (columns H)) =
        map (\<lambda>c. c @ ''_hist'') (filter (\<lambda>c. c \<notin> set key_cols) (columns H))"
    using hist_right_columns [OF h3] hist_suffixed [OF h1]
    by (intro map_cong) auto
  moreover have "map (suffixed M H key_cols []) (columns M) = columns M"
    by (simp add: map_idI)
  ultimately show ?thesis
    by (simp add: left_join_def)
qed

lemma hist_label_in_join:
  assumes h1: "set ODDS_VALUE_COLUMNS \<subseteq> set (columns M)"
    and h2: "\<forall>c \<in> set ODDS_VALUE_COLUMNS. c @ ''_hist'' \<notin> set (columns M)"
    and h3: "set (columns H) \<subseteq> set key_cols \<union> set ODDS_VALUE_COLUMNS"
    and c: "c \<in> set ODDS_VALUE_COLUMNS"
  shows "c @ ''_hist'' \<in> set (columns (left_join M H key_cols ([], ''_hist''))) \<longleftrightarrow>
         c \<in> set (columns H)"
  using h2 c hist_right_columns [OF h3]
  unfolding columns_hist_join [OF h1 h3] by auto

lemma hist_join_right:
  assumes h1: "set ODDS_VALUE_COLUMNS \<subseteq> set (columns M)"
    and h2: "\<forall>c \<in> set ODDS_VALUE_COLUMNS. c @ ''_hist'' \<notin> set (columns M)"
    and h3: "set (columns H) \<subseteq> set key_cols \<union> set ODDS_VALUE_COLUMNS"
    and c: "c \<in> set ODDS_VALUE_COLUMNS" "c \<in> set (columns H)"
  shows "join_row M H key_cols ([], ''_hist'') (l, h) (c @ ''_hist'') = h c"
proof -
  let ?rcols = "filter (\<lambda>c. c \<notin> set key_cols) (columns H)"
  from h2 c(1) have 1: "find (\<lambda>c'. c' = c @ ''_hist'') (columns M) = None"
    by (simp add: find_eq)
  have "find (\<lambda>c'. suffixed M H key_cols ''_hist'' c' = c @ ''_hist'') ?rcols =
        find (\<lambda>c'. c' = c) ?rcols"
    using hist_right_columns [OF h3] hist_suffixed [OF h1]
    by (intro find_cong) auto
  also from c ODDS_not_key have "\<dots> = Some c"
    by (auto simp: find_eq)
  finally show ?thesis
    using 1 by (simp add: join_row_def)
qed


lemma map_flag_replicate:
  "map (\<lambda>(f, r). f \<or> P r) (zip (replicate (length xs) False) xs) = map P xs"
  by (induction xs) auto

lemma backfill_rows_eq:
  assumes h4: "\<not> empty_frame H"
  shows "rows (backfill_frame M (Some H)) = map (backfill_row M H) (joined_rows M H key_cols)"
proof -
  let ?os = "''odds_source''"
  let ?J = "left_join M H key_cols ([], ''_hist'')"
  let ?cJ = "columns ?J"
  let ?j = "join_row M H key_cols ([], ''_hist'')"
  let ?cF = "filter (\<lambda>x. x \<notin> (\<lambda>c. c @ ''_hist'') ` set ODDS_VALUE_COLUMNS) ?cJ"
  have rJ: "rows ?J = map ?j (joined_rows M H key_cols)"
    by (simp add: left_join_def)
  have fld: "fold fill_step ODDS_VALUE_COLUMNS (?J, replicate (length (rows ?J)) False) =
      (\<lparr>columns = ?cF, rows = map (fill_row ODDS_VALUE_COLUMNS ?cJ) (rows ?J)\<rparr>,
       map (fill_flag ODDS_VALUE_COLUMNS ?cJ) (rows ?J))"
    using fold_fill_step [OF distinct_ODDS ODDS_hist_not_ODDS, of "replicate (length (rows ?J)) False" ?J]
    by (simp add: map_flag_replicate)
  let ?st = "fold fill_step ODDS_VALUE_COLUMNS (?J, replicate (length (rows ?J)) False)"
  have bf: "backfill_frame M (Some H) =
      (ensure_odds_source (fst ?st))\<lparr>rows :=
         map (\<lambda>(f, r). if f \<and> isna (r ?os) then r(?os := Str ''historical'') else r)
           (zip (snd ?st) (rows (ensure_odds_source (fst ?st))))\<rparr>"
    using h4 by (simp add: backfill_frame_def fill_from_hist_def Let_def)
  show ?thesis
  proof (cases "?os \<in> set ?cF")
    case True
    then show ?thesis
      unfolding bf fld
      by (simp add: ensure_odds_source_def zip_map_map_same rJ backfill_row_def Let_def comp_def
          del: set_filter)
  next
    case False
    then show ?thesis
      unfolding bf fld
      by (simp add: ensure_odds_source_def assign_column_def zip_map_map_same rJ backfill_row_def
          Let_def comp_def del: set_filter)
  qed
qed

lemma backfill_row_other:
  assumes "x \<in> set (columns M)" and "x \<notin> set ODDS_VALUE_COLUMNS" and "x \<noteq> ''odds_source''"
    and "x \<notin> (\<lambda>c. c @ ''_hist'') ` set ODDS_VALUE_COLUMNS"
  shows "backfill_row M H (l, h) x = l x"
  using assms unfolding backfill_row_def Let_def
  by (simp add: fill_row_def join_row_left_nil)

lemma backfill_row_odds:
  assumes h1: "set ODDS_VALUE_COLUMNS \<subseteq> set (columns M)"
    and h2: "\<forall>c \<in> set ODDS_VALUE_COLUMNS. c @ ''_hist'' \<notin> set (columns M)"
    and h3: "set (columns H) \<subseteq> set key_cols \<union> set ODDS_VALUE_COLUMNS"
    and c: "c \<in> set ODDS_VALUE_COLUMNS"
  shows "backfill_row M H (l, h) c =
           (if c \<in> set (columns H) \<and> isna (l c) \<and> notna (h c) then h c else l c)"
proof -
  let ?cJ = "columns (left_join M H key_cols ([], ''_hist''))"
  let ?j = "join_row M H key_cols ([], ''_hist'')"
  from c h1 have cM: "c \<in> set (columns M)" by blast
  from c ODDS_hist_not_ODDS have nh: "c \<notin> (\<lambda>c. c @ ''_hist'') ` set ODDS_VALUE_COLUMNS"
    by auto
  have jl: "?j (l, h) c = l c"
    using cM by (rule join_row_left_nil)
  have fr: "fill_row ODDS_VALUE_COLUMNS ?cJ (?j (l, h)) c =
      (if c \<in> set (columns H) \<and> isna (l c) \<and> notna (h c) then h c else l c)"
  proof (cases "c \<in> set (columns H)")
    case True
    with c nh show ?thesis
      by (simp add: fill_row_def hist_label_in_join [OF h1 h2 h3 c] jl
          hist_join_right [OF h1 h2 h3 c True])
  next
    case False
    with c nh show ?thesis
      by (simp add: fill_row_def hist_label_in_join [OF h1 h2 h3 c] jl)
  qed
  from c source_not_ODDS have "c \<noteq> ''odds_source''" by auto
  then show ?thesis
    unfolding backfill_row_def Let_def by (simp add: fr)
qed

lemma fill_flag_hist_join:
  assumes h1: "set ODDS_VALUE_COLUMNS \<subseteq> set (columns M)"
    and h2: "\<forall>c \<in> set ODDS_VALUE_COLUMNS. c @ ''_hist'' \<notin> set (columns M)"
    and h3: "set (columns H) \<subseteq> set key_cols \<union> set ODDS_VALUE_COLUMNS"
  shows "fill_flag ODDS_VALUE_COLUMNS (columns (left_join M H key_cols ([], ''_hist'')))
           (join_row M H key_cols ([], ''_hist'') (l, h)) =
         (\<exists>c \<in> set ODDS_VALUE_COLUMNS. c \<in> set (columns H) \<and> isna (l c) \<and> notna (h c))"
proof -
  let ?cJ = "columns (left_join M H key_cols ([], ''_hist''))"
  let ?j = "join_row M H key_cols ([], ''_hist'')"
  have "(c @ ''_hist'' \<in> set ?cJ \<and> isna (?j (l, h) c) \<and> notna (?j (l, h) (c @ ''_hist''))) =
        (c \<in> set (columns H) \<and> isna (l c) \<and> notna (h c))"
    if c: "c \<in> set ODDS_VALUE_COLUMNS" for c
  proof -
    from c h1 have cM: "c \<in> set (columns M)" by blast
    have jl: "?j (l, h) c = l c"
      using cM by (rule join_row_left_nil)
    show ?thesis
      using hist_join_right [OF h1 h2 h3 c]
      by (auto simp: hist_label_in_join [OF h1 h2 h3 c] jl)
  qed
  then show ?thesis
    unfolding fill_flag_def by blast
qed

lemma backfill_row_source:
  assumes h1: "set ODDS_VALUE_COLUMNS \<subseteq> set (columns M)"
    and h2: "\<forall>c \<in> set ODDS_VALUE_COLUMNS. c @ ''_hist'' \<notin> set (columns M)"
    and h3: "set (columns H) \<subseteq> set key_cols \<union> set ODDS_VALUE_COLUMNS"
  shows "backfill_row M H (l, h) ''odds_source'' =
        (let tag = (if ''odds_source'' \<in> set (columns M) then l ''odds_source'' else NA)
         in if isna tag \<and> (\<exists>c \<in> set ODDS_VALUE_COLUMNS.
                               c \<in> set (columns H) \<and> isna (l c) \<and> notna (h c))
            then Str ''historical'' else tag)"
proof -
  let ?os = "''odds_source''"
  let ?cJ = "columns (left_join M H key_cols ([], ''_hist''))"
  let ?cF = "filter (\<lambda>x. x \<notin> (\<lambda>c. c @ ''_hist'') ` set ODDS_VALUE_COLUMNS) ?cJ"
  have osF: "?os \<in> set ?cF \<longleftrightarrow> ?os \<in> set (columns M)"
    using ODDS_hist_not_source hist_right_columns [OF h3]
    unfolding columns_hist_join [OF h1 h3] by auto
  have fr_source: "fill_row ODDS_VALUE_COLUMNS ?cJ r ?os = r ?os" for r
  proof -
    from ODDS_hist_not_source have "?os \<notin> (\<lambda>c. c @ ''_hist'') ` set ODDS_VALUE_COLUMNS" by auto
    with source_not_ODDS show ?thesis
      by (simp add: fill_row_def)
  qed
  show ?thesis
  proof (cases "?os \<in> set (columns M)")
    case True
    then show ?thesis
      unfolding backfill_row_def Let_def osF fill_flag_hist_join [OF h1 h2 h3]
      by (auto simp: fr_source join_row_left_nil)
  next
    case False
    then show ?thesis
      unfolding backfill_row_def Let_def osF fill_flag_hist_join [OF h1 h2 h3]
      by (auto simp: fr_source isna_def)
  qed
qed

lemma backfill_rows_none:
  assumes "hist = None \<or> empty_frame (the hist)"
  shows "rows (backfill_frame M hist) =
     map (\<lambda>r. if ''odds_source'' \<in> set (columns M) then r else r(''odds_source'' := NA)) (rows M)"
  using assms by (auto simp: backfill_frame_def ensure_odds_source_def assign_column_def)

lemma rows_tag_sources:
  "rows (tag_sources B) =
     map (\<lambda>r. if \<forall>c \<in> set ODDS_VALUE_COLUMNS. isna (r c) then r(''odds_source'' := Str ''missing'')
               else r(''odds_source'' := (if isna (r ''odds_source'') then Str ''odds_api''
                                          else r ''odds_source''))) (rows B)"
proof -
  have "(\<forall>c \<in> set ODDS_VALUE_COLUMNS. isna ((r(''odds_source'' := v)) c)) =
        (\<forall>c \<in> set ODDS_VALUE_COLUMNS. isna (r c))" for r :: row and v
    using source_not_ODDS by (intro ball_cong) auto
  then show ?thesis
    by (auto simp: tag_sources_def map_column_def Let_def fun_eq_iff)
qed

lemma joined_rows_no_rows:
  "rows right = [] \<Longrightarrow> joined_rows left right on = map (\<lambda>l. (l, \<lambda>_. NA)) (rows left)"
  by (simp add: joined_rows_def match_rows_def concat_map_singleton)

lemma joined_rows_right:
  "(l, r) \<in> set (joined_rows left right on) \<Longrightarrow> r \<in> set (rows right) \<or> r = (\<lambda>_. NA)"
  by (auto simp: joined_rows_def match_rows_def Let_def split: if_splits)

section \<open>Backfill and tagging, row by row\<close>

lemma list_all2_map_same: "(\<forall>x \<in> set xs. P (f x) x) \<Longrightarrow> list_all2 P (map f xs) xs"
  by (induction xs) auto

lemma enrich_rows:
  assumes h1: "set ODDS_VALUE_COLUMNS \<subseteq> set (columns M)"
    and h2: "\<forall>c \<in> set ODDS_VALUE_COLUMNS. c @ ''_hist'' \<notin> set (columns M)"
    and hH: "hist_ok hist"
  shows "\<exists>G. rows (tag_sources (backfill_frame M hist)) = map G (hist_pairs M hist) \<and>
     (\<forall>(l, h) \<in> set (hist_pairs M hist).
        (\<forall>c \<in> set ODDS_VALUE_COLUMNS.
           G (l, h) c = (if isna (l c) \<and> notna (h c) then h c else l c)) \<and>
        G (l, h) ''odds_source'' =
          (if \<forall>c \<in> set ODDS_VALUE_COLUMNS. isna (G (l, h) c) then Str ''missing''
           else if ''odds_source'' \<in> set (columns M) \<and> notna (l ''odds_source'')
           then l ''odds_source''
           else if \<exists>c \<in> set ODDS_VALUE_COLUMNS. isna (l c) \<and> notna (h c)
           then Str ''historical'' else Str ''odds_api''))"
proof -
  let ?os = "''odds_source''"
  define T :: "row \<Rightarrow> row" where
    "T = (\<lambda>r. if \<forall>c \<in> set ODDS_VALUE_COLUMNS. isna (r c) then r(?os := Str ''missing'')
               else r(?os := (if isna (r ?os) then Str ''odds_api'' else r ?os)))"
  have rT: "rows (tag_sources B) = map T (rows B)" for B
    unfolding T_def by (rule rows_tag_sources)
  have T_odds: "T r c = r c" if "c \<in> set ODDS_VALUE_COLUMNS" for r c
    using that source_not_ODDS unfolding T_def by auto
  have T_all: "(\<forall>c \<in> set ODDS_VALUE_COLUMNS. isna (T r c)) = (\<forall>c \<in> set ODDS_VALUE_COLUMNS. isna (r c))"
    for r
    using T_odds by (intro ball_cong) auto
  have T_os: "T r ?os = (if \<forall>c \<in> set ODDS_VALUE_COLUMNS. isna (r c) then Str ''missing''
         else if isna (r ?os) then Str ''odds_api'' else r ?os)" for r
    unfolding T_def by simp
  show ?thesis
  proof (cases "hist = None \<or> empty_frame (the hist)")
    case True
    define E :: "row \<Rightarrow> row" where
      "E = (\<lambda>r. if ?os \<in> set (columns M) then r else r(?os := NA))"
    define G :: "row \<times> row \<Rightarrow> row" where "G = (\<lambda>p. T (E (fst p)))"
    have pairs: "hist_pairs M hist = map (\<lambda>l. (l, \<lambda>_. NA)) (rows M)"
    proof (cases hist)
      case None
      then show ?thesis by (simp add: hist_pairs_def)
    next
      case (Some H)
      with True hH have "rows H = []"
        by (auto simp: empty_frame_def hist_ok_def)
      with Some show ?thesis
        by (simp add: hist_pairs_def joined_rows_no_rows)
    qed
    have "rows (backfill_frame M hist) = map E (rows M)"
      unfolding E_def by (rule backfill_rows_none [OF True])
    then have rws: "rows (tag_sources (backfill_frame M hist)) = map G (hist_pairs M hist)"
      unfolding rT pairs G_def by (simp only: map_map comp_def fst_conv)
    have E_odds: "E l c = l c" if "c \<in> set ODDS_VALUE_COLUMNS" for l c
      using that source_not_ODDS unfolding E_def by auto
    have E_os: "E l ?os = (if ?os \<in> set (columns M) then l ?os else NA)" for l
      unfolding E_def by simp
    have p1: "G (l, h) c = (if isna (l c) \<and> notna (h c) then h c else l c)"
      if "(l, h) \<in> set (hist_pairs M hist)" "c \<in> set ODDS_VALUE_COLUMNS" for l h c
    proof -
      from that(1) have "h = (\<lambda>_. NA)" unfolding pairs by auto
      then show ?thesis
        unfolding G_def using T_odds [OF that(2)] E_odds [OF that(2)] by (simp add: notna_def)
    qed
    have p2: "G (l, h) ?os =
          (if \<forall>c \<in> set ODDS_VALUE_COLUMNS. isna (G (l, h) c) then Str ''missing''
           else if ?os \<in> set (columns M) \<and> notna (l ?os) then l ?os
           else if \<exists>c \<in> set ODDS_VALUE_COLUMNS. isna (l c) \<and> notna (h c)
           then Str ''historical'' else Str ''odds_api'')"
      if "(l, h) \<in> set (hist_pairs M hist)" for l h
    proof -
      from that have h: "h = (\<lambda>_. NA)" unfolding pairs by auto
      have a: "(\<forall>c \<in> set ODDS_VALUE_COLUMNS. isna (G (l, h) c)) =
            (\<forall>c \<in> set ODDS_VALUE_COLUMNS. isna (E l c))"
        unfolding G_def using T_all [of "E l"] by simp
      have b: "G (l, h) ?os = (if \<forall>c \<in> set ODDS_VALUE_COLUMNS. isna (E l c) then Str ''missing''
         else if isna (E l ?os) then Str ''odds_api'' else E l ?os)"
        unfolding G_def by (simp add: T_os)
      show ?thesis
        unfolding a b E_os using h
        by (auto simp: notna_def isna_def)
    qed
    show ?thesis
    proof (intro exI [of _ G] conjI ballI)
      show "rows (tag_sources (backfill_frame M hist)) = map G (hist_pairs M hist)"
        by (rule rws)
    next
      fix p
      assume p: "p \<in> set (hist_pairs M hist)"
      obtain l h where lh: "p = (l, h)" by (cases p)
      from p have lh': "(l, h) \<in> set (hist_pairs M hist)"
        unfolding lh .
      show "case p of (l, h) \<Rightarrow>
        (\<forall>c \<in> set ODDS_VALUE_COLUMNS.
           G (l, h) c = (if isna (l c) \<and> notna (h c) then h c else l c)) \<and>
        G (l, h) ''odds_source'' =
          (if \<forall>c \<in> set ODDS_VALUE_COLUMNS. isna (G (l, h) c) then Str ''missing''
           else if ''odds_source'' \<in> set (columns M) \<and> notna (l ''odds_source'')
           then l ''odds_source''
           else if \<exists>c \<in> set ODDS_VALUE_COLUMNS. isna (l c) \<and> notna (h c)
           then Str ''historical'' else Str ''odds_api'')"
        unfolding lh prod.case
      proof (intro conjI ballI)
        fix c
        assume "c \<in> set ODDS_VALUE_COLUMNS"
        with lh' show "G (l, h) c = (if isna (l c) \<and> notna (h c) then h c else l c)"
          by (rule p1)
      next
        from lh' show "G (l, h) ''odds_source'' =
          (if \<forall>c \<in> set ODDS_VALUE_COLUMNS. isna (G (l, h) c) then Str ''missing''
           else if ''odds_source'' \<in> set (columns M) \<and> notna (l ''odds_source'')
           then l ''odds_source''
           else if \<exists>c \<in> set ODDS_VALUE_COLUMNS. isna (l c) \<and> notna (h c)
           then Str ''historical'' else Str ''odds_api'')"
          by (rule p2)
      qed
    qed
  next
    case False
    then obtain H where H: "hist = Some H" and ne: "\<not> empty_frame H"
      by auto
    from hH H have h3: "set (columns H) \<subseteq> set key_cols \<union> set ODDS_VALUE_COLUMNS"
      and hna: "\<forall>r \<in> set (rows H). \<forall>c. c \<notin> set (columns H) \<longrightarrow> r c = NA"
      by (auto simp: hist_ok_def)
    define G :: "row \<times> row \<Rightarrow> row" where "G = (\<lambda>p. T (backfill_row M H p))"
    have pairs: "hist_pairs M hist = joined_rows M H key_cols"
      using H by (simp add: hist_pairs_def)
    have rws: "rows (tag_sources (backfill_frame M hist)) = map G (hist_pairs M hist)"
      unfolding rT H backfill_rows_eq [OF ne] pairs [unfolded H] G_def
      by (simp only: map_map comp_def)
    have hc: "(c \<in> set (columns H) \<and> isna (l c) \<and> notna (h c)) = (isna (l c) \<and> notna (h c))"
      if "(l, h) \<in> set (hist_pairs M hist)" for l h c
    proof -
      from that joined_rows_right [of l h M H key_cols]
      have "h \<in> set (rows H) \<or> h = (\<lambda>_. NA)" unfolding pairs by blast
      with hna have "c \<notin> set (columns H) \<longrightarrow> h c = NA" by auto
      then show ?thesis by (auto simp: notna_def)
    qed
    have b_odds: "backfill_row M H (l, h) c = (if isna (l c) \<and> notna (h c) then h c else l c)"
      if "(l, h) \<in> set (hist_pairs M hist)" "c \<in> set ODDS_VALUE_COLUMNS" for l h c
      unfolding backfill_row_odds [OF h1 h2 h3 that(2)] hc [OF that(1)] ..
    have p1: "G (l, h) c = (if isna (l c) \<and> notna (h c) then h c else l c)"
      if "(l, h) \<in> set (hist_pairs M hist)" "c \<in> set ODDS_VALUE_COLUMNS" for l h c
      unfolding G_def using T_odds [OF that(2)] b_odds [OF that] by simp
    have p2: "G (l, h) ?os =
          (if \<forall>c \<in> set ODDS_VALUE_COLUMNS. isna (G (l, h) c) then Str ''missing''
           else if ?os \<in> set (columns M) \<and> notna (l ?os) then l ?os
           else if \<exists>c \<in> set ODDS_VALUE_COLUMNS. isna (l c) \<and> notna (h c)
           then Str ''historical'' else Str ''odds_api'')"
      if lh: "(l, h) \<in> set (hist_pairs M hist)" for l h
    proof -
      have a: "(\<forall>c \<in> set ODDS_VALUE_COLUMNS. isna (G (l, h) c)) =
            (\<forall>c \<in> set ODDS_VALUE_COLUMNS. isna (backfill_row M H (l, h) c))"
        unfolding G_def using T_all [of "backfill_row M H (l, h)"] by simp
      have ex: "(\<exists>c \<in> set ODDS_VALUE_COLUMNS. c \<in> set (columns H) \<and> isna (l c) \<and> notna (h c)) =
            (\<exists>c \<in> set ODDS_VALUE_COLUMNS. isna (l c) \<and> notna (h c))"
        using hc [OF lh] by blast
      have b: "G (l, h) ?os =
         (if \<forall>c \<in> set ODDS_VALUE_COLUMNS. isna (backfill_row M H (l, h) c) then Str ''missing''
          else if isna (backfill_row M H (l, h) ?os) then Str ''odds_api''
          else backfill_row M H (l, h) ?os)"
        unfolding G_def by (simp add: T_os)
      show ?thesis
        unfolding a b backfill_row_source [OF h1 h2 h3] ex Let_def
        by (auto simp: notna_def isna_def)
    qed
    show ?thesis
    proof (intro exI [of _ G] conjI ballI)
      show "rows (tag_sources (backfill_frame M hist)) = map G (hist_pairs M hist)"
        by (rule rws)
    next
      fix p
      assume p: "p \<in> set (hist_pairs M hist)"
      obtain l h where lh: "p = (l, h)" by (cases p)
      from p have lh': "(l, h) \<in> set (hist_pairs M hist)"
        unfolding lh .
      show "case p of (l, h) \<Rightarrow>
        (\<forall>c \<in> set ODDS_VALUE_COLUMNS.
           G (l, h) c = (if isna (l c) \<and> notna (h c) then h c else l c)) \<and>
        G (l, h) ''odds_source'' =
          (if \<forall>c \<in> set ODDS_VALUE_COLUMNS. isna (G (l, h) c) then Str ''missing''
           else if ''odds_source'' \<in> set (columns M) \<and> notna (l ''odds_source'')
           then l ''odds_source''
           else if \<exists>c \<in> set ODDS_VALUE_COLUMNS. isna (l c) \<and> notna (h c)
           then Str ''historical'' else Str ''odds_api'')"
        unfolding lh prod.case
      proof (intro conjI ballI)
        fix c
        assume "c \<in> set ODDS_VALUE_COLUMNS"
        with lh' show "G (l, h) c = (if isna (l c) \<and> notna (h c) then h c else l c)"
          by (rule p1)
      next
        from lh' show "G (l, h) ''odds_source'' =
          (if \<forall>c \<in> set ODDS_VALUE_COLUMNS. isna (G (l, h) c) then Str ''missing''
           else if ''odds_source'' \<in> set (columns M) \<and> notna (l ''odds_source'')
           then l ''odds_source''
           else if \<exists>c \<in> set ODDS_VALUE_COLUMNS. isna (l c) \<and> notna (h c)
           then Str ''historical'' else Str ''odds_api'')"
          by (rule p2)
      qed
    qed
  qed
qed

section \<open>The live merge\<close>

lemma find_eq_guard: "find (\<lambda>c'. c' = x \<and> P) cs = (if P \<and> x \<in> set cs then Some x else None)"
  by (induction cs) auto

lemma suffixed_eq_plain:
  assumes "x \<noteq> []" and "s \<noteq> []" and "last x \<noteq> last s"
  shows "suffixed left right on s c' = x \<longleftrightarrow>
     c' = x \<and> \<not> (x \<in> set (columns left) \<and> x \<in> set (columns right) \<and> x \<notin> set on)"
proof (cases "c' \<in> set (columns left) \<and> c' \<in> set (columns right) \<and> c' \<notin> set on")
  case True
  from assms have "c' @ s \<noteq> x"
    by (metis last_appendR)
  with True show ?thesis
    by (auto simp: suffixed_def)
next
  case False
  then show ?thesis
    by (auto simp: suffixed_def)
qed

lemma join_row_plain:
  assumes "x \<noteq> []" and "last x \<noteq> CHR ''x''" and "last x \<noteq> CHR ''y''"
  shows "join_row left right on (''_x'', ''_y'') (l, r) x =
     (if x \<in> set (columns left) \<and> x \<in> set (columns right) \<and> x \<notin> set on then NA
      else if x \<in> set (columns left) then l x
      else if x \<in> set (columns right) \<and> x \<notin> set on then r x
      else NA)"
proof -
  let ?ov = "x \<in> set (columns left) \<and> x \<in> set (columns right) \<and> x \<notin> set on"
  have a: "(\<lambda>c'. suffixed left right on ''_x'' c' = x) = (\<lambda>c'. c' = x \<and> \<not> ?ov)"
    using assms by (intro ext suffixed_eq_plain) simp_all
  have b: "(\<lambda>c'. suffixed left right on ''_y'' c' = x) = (\<lambda>c'. c' = x \<and> \<not> ?ov)"
    using assms by (intro ext suffixed_eq_plain) simp_all
  show ?thesis
    unfolding join_row_def prod.case fst_conv snd_conv a b find_eq_guard
    by auto
qed

lemma merge_columns_plain:
  assumes "x \<noteq> []" and "last x \<noteq> CHR ''x''" and "last x \<noteq> CHR ''y''"
  shows "x \<in> set (columns (left_join left right on (''_x'', ''_y''))) \<longleftrightarrow>
     \<not> (x \<in> set (columns left) \<and> x \<in> set (columns right) \<and> x \<notin> set on) \<and>
     (x \<in> set (columns left) \<or> x \<in> set (columns right) \<and> x \<notin> set on)"
proof -
  have a: "suffixed left right on ''_x'' c' = x \<longleftrightarrow>
     c' = x \<and> \<not> (x \<in> set (columns left) \<and> x \<in> set (columns right) \<and> x \<notin> set on)" for c'
    using assms by (intro suffixed_eq_plain) simp_all
  have b: "suffixed left right on ''_y'' c' = x \<longleftrightarrow>
     c' = x \<and> \<not> (x \<in> set (columns left) \<and> x \<in> set (columns right) \<and> x \<notin> set on)" for c'
    using assms by (intro suffixed_eq_plain) simp_all
  have "x \<in> set (columns (left_join left right on (''_x'', ''_y''))) \<longleftrightarrow>
      (\<exists>c' \<in> set (columns left). suffixed left right on ''_x'' c' = x) \<or>
      (\<exists>c' \<in> set (filter (\<lambda>c. c \<notin> set on) (columns right)).
          suffixed left right on ''_y'' c' = x)"
    unfolding left_join_def by (simp add: image_iff) blast
  then show ?thesis
    unfolding a b by auto
qed

lemma live_frame_alt:
  "live_frame schedule latest =
     (let m0 = left_join schedule (select_columns (latest_cols latest) latest)
                 [''home_team'', ''away_team''] (''_x'', ''_y'')
      in \<lparr>columns = columns m0 @ filter (\<lambda>c. c \<notin> set (columns m0)) ODDS_VALUE_COLUMNS,
          rows = map (\<lambda>r c. if c \<in> set ODDS_VALUE_COLUMNS \<and> c \<notin> set (columns m0) then NA else r c)
                   (rows m0)\<rparr>)"
  unfolding live_frame_def Let_def
  by (rule add_missing_columns [OF distinct_ODDS])

lemma ODDS_in_live_frame: "set ODDS_VALUE_COLUMNS \<subseteq> set (columns (live_frame schedule latest))"
  unfolding live_frame_alt Let_def by auto

lemma latest_cols_subset:
  "set (latest_cols latest) \<subseteq>
     {''home_team'', ''away_team'', ''odds_source'', ''commence_time''} \<union> set ODDS_VALUE_COLUMNS"
  by (auto simp: latest_cols_def)

lemma hist_labels_plain:
  "\<forall>c \<in> set ODDS_VALUE_COLUMNS. c @ ''_hist'' \<notin>
     {''home_team'', ''away_team'', ''odds_source'', ''commence_time''} \<union> set ODDS_VALUE_COLUMNS"
  by (simp add: ODDS_VALUE_COLUMNS_def)

lemma no_hist_labels_live_frame:
  assumes "\<forall>c \<in> set ODDS_VALUE_COLUMNS. c @ ''_hist'' \<notin> set (columns schedule)"
  shows "\<forall>c \<in> set ODDS_VALUE_COLUMNS. c @ ''_hist'' \<notin> set (columns (live_frame schedule latest))"
proof
  fix c
  assume c: "c \<in> set ODDS_VALUE_COLUMNS"
  let ?x = "c @ ''_hist''"
  let ?L = "select_columns (latest_cols latest) latest"
  have p: "?x \<noteq> []" "last ?x \<noteq> CHR ''x''" "last ?x \<noteq> CHR ''y''"
    by simp_all
  from c hist_labels_plain latest_cols_subset [of latest]
  have nl: "?x \<notin> set (columns ?L)"
    by (auto simp: select_columns_def)
  from c assms have ns: "?x \<notin> set (columns schedule)" by blast
  from c ODDS_hist_not_ODDS have no: "?x \<notin> set ODDS_VALUE_COLUMNS" by blast
  have "?x \<notin> set (columns (left_join schedule ?L [''home_team'', ''away_team''] (''_x'', ''_y'')))"
    unfolding merge_columns_plain [OF p] using nl ns by simp
  with no show "?x \<notin> set (columns (live_frame schedule latest))"
    unfolding live_frame_alt Let_def by simp
qed

section \<open>Accepted and refused merges\<close>

lemma key_clash_no_rows: "rows right = [] \<Longrightarrow> \<not> key_clash left right k"
  by (simp add: key_clash_def text_column_def number_column_def)

lemma merge_left_no_rows:
  "rows right = [] \<Longrightarrow> merge_left left right on sfx = Inr (left_join left right on sfx)"
  by (simp add: merge_left_def find_None_iff key_clash_no_rows split: option.splits)

lemma merge_left_Inr: "merge_left left right on sfx = Inr m \<Longrightarrow> m = left_join left right on sfx"
  by (auto simp: merge_left_def split: option.splits)

lemma live_merge_eq:
  "live_merge S L =
     (case find (key_clash S (select_columns (latest_cols L) L)) [''home_team'', ''away_team''] of
        Some k \<Rightarrow> Inl (MergeKeyError k)
      | None \<Rightarrow> Inr (live_frame S L))"
  by (simp add: live_merge_def merge_left_def live_frame_def split: option.splits)

lemma live_merge_Inr: "live_merge S L = Inr M \<Longrightarrow> M = live_frame S L"
  by (auto simp: live_merge_eq split: option.splits if_splits)

lemma empty_frame_of_table [simp]: "empty_frame (frame_of_table t) = empty_table t"
  by (simp add: empty_frame_def empty_table_def frame_of_table_def)

lemma backfill_Inr:
  assumes "backfill M hist = Inr B"
  shows "B = backfill_frame M (map_option frame_of_table hist)"
proof (cases "hist \<noteq> None \<and> \<not> empty_table (the hist)")
  case True
  then obtain t where t: "hist = Some t" and ne: "\<not> empty_table t" by auto
  from assms show ?thesis
    unfolding t backfill_def backfill_frame_def using ne
    by (auto simp: merge_left_def split: option.splits if_splits)
next
  case False
  with assms show ?thesis
    by (cases hist) (auto simp: backfill_def backfill_frame_def)
qed

lemma backfill_no_table: "backfill M None = Inr (ensure_odds_source M)"
  by (simp add: backfill_def)

lemma fetch_schedule_odds_ok:
  assumes "missing_columns schedule = []"
  shows "fetch_schedule_odds e schedule api_key hp pref =
     (case live_merge (normalize_schedule schedule)
             (dedup_latest (latest_odds e api_key pref)) of
        Inl err \<Rightarrow> Inl err
      | Inr merged \<Rightarrow>
          (case load_hist (files e) hp of
             Inl err \<Rightarrow> Inl err
           | Inr hist \<Rightarrow>
               (case backfill merged hist of
                  Inl err \<Rightarrow> Inl err
                | Inr merged \<Rightarrow> Inr (tag_sources merged))))"
  using assms by (simp add: fetch_schedule_odds_def Let_def)

lemma fetch_schedule_odds_Inr:
  assumes "fetch_schedule_odds e schedule api_key hp pref = Inr out"
  shows "missing_columns schedule = [] \<and>
     (\<exists>hist. load_hist (files e) hp = Inr hist \<and>
        backfill (live_frame (normalize_schedule schedule)
                    (dedup_latest (latest_odds e api_key pref))) hist \<noteq> Inl DuplicateColumnError \<and>
        out = tag_sources (backfill_frame
                (live_frame (normalize_schedule schedule)
                   (dedup_latest (latest_odds e api_key pref)))
                (map_option frame_of_table hist)))"
proof -
  let ?S = "normalize_schedule schedule"
  let ?L = "dedup_latest (latest_odds e api_key pref)"
  from assms have m: "missing_columns schedule = []"
    by (auto simp: fetch_schedule_odds_def split: if_splits)
  from assms obtain M where M: "live_merge ?S ?L = Inr M"
    unfolding fetch_schedule_odds_ok [OF m] by (auto split: sum.splits)
  from assms M obtain hist where h: "load_hist (files e) hp = Inr hist"
    unfolding fetch_schedule_odds_ok [OF m] by (auto split: sum.splits)
  from assms M h obtain B where B: "backfill M hist = Inr B" and o: "out = tag_sources B"
    unfolding fetch_schedule_odds_ok [OF m] by (auto split: sum.splits)
  from M have M': "M = live_frame ?S ?L" by (rule live_merge_Inr)
  from B have "B = backfill_frame M (map_option frame_of_table hist)" by (rule backfill_Inr)
  with h o B M' show ?thesis
    using m by auto
qed

lemma load_hist_absent:
  "files e p = None \<Longrightarrow> load_hist (files e) (Some p) = Inr None"
  by (simp add: load_hist_def prepare_historical_lines_def truthy_def)

lemma latest_cols_no_columns:
  "set (columns L) \<subseteq> set key_cols \<Longrightarrow> latest_cols L = [''home_team'', ''away_team'']"
  by (auto simp: latest_cols_def key_cols_def ODDS_VALUE_COLUMNS_def filter_empty_conv)

lemma select_no_rows:
  "rows L = [] \<Longrightarrow> select_columns cs L = DataFrame_columns cs"
  by (simp add: select_columns_def DataFrame_columns_def)

lemma live_merge_failed_provider:
  "live_merge S (dedup_latest (latest_odds (e\<lparr>provider := None\<rparr>) api_key pref)) =
   live_merge S (dedup_latest (latest_odds e [] pref))"
proof -
  let ?L1 = "dedup_latest (latest_odds (e\<lparr>provider := None\<rparr>) api_key pref)"
  have L2: "dedup_latest (latest_odds e [] pref) = DataFrame_columns [''home_team'', ''away_team'']"
    by (rule dedup_latest_no_key)
  have L1: "?L1 = DataFrame_columns key_cols \<or> ?L1 = DataFrame_columns [''home_team'', ''away_team'']"
    by (simp add: latest_odds_def dedup_latest_def dropna_def DataFrame_columns_def Let_def
        empty_frame_def)
  then have c1: "latest_cols ?L1 = [''home_team'', ''away_team'']" and r1: "rows ?L1 = []"
    by (auto simp: latest_cols_no_columns DataFrame_columns_def key_cols_def)
  have c2: "latest_cols (DataFrame_columns [''home_team'', ''away_team'']) = [''home_team'', ''away_team'']"
    by (simp add: latest_cols_no_columns DataFrame_columns_def key_cols_def)
  have s1: "select_columns (latest_cols ?L1) ?L1 = DataFrame_columns [''home_team'', ''away_team'']"
    unfolding c1 using r1 by (rule select_no_rows)
  have s2: "select_columns (latest_cols (DataFrame_columns [''home_team'', ''away_team'']))
              (DataFrame_columns [''home_team'', ''away_team'']) =
            DataFrame_columns [''home_team'', ''away_team'']"
    unfolding c2 by (simp add: select_no_rows DataFrame_columns_def)
  show ?thesis
    unfolding L2 unfolding live_merge_def s1 s2 ..
qed


section \<open>Errors of the enrichment\<close>

text \<open>
  C3, as the code has it. The schema check raises exactly when the schedule lacks one of
  \<^verbatim>\<open>season\<close>, \<^verbatim>\<open>week\<close>, \<^verbatim>\<open>home_team\<close>, \<^verbatim>\<open>away_team\<close>; the exception is a \<^verbatim>\<open>ValueError\<close> whose
  message prints the sorted list of the missing columns, so it names each of them; with
  the four columns present this error does not arise. It is not the only error that
  leaves \<^verbatim>\<open>fetch_schedule_odds\<close>: the error of \<^verbatim>\<open>pd.read_csv\<close> on a historical file that
  exists and cannot be read does, and so does the error of either merge on a key column
  that is text on one side and numeric on the other. A failed provider call gives what an
  empty key gives, and a path where nothing exists gives what no path gives.
\<close>

theorem fetch_schedule_odds_errors:
  "(missing_columns schedule \<noteq> [] \<longleftrightarrow> (\<exists>c \<in> set key_cols. c \<notin> set (columns schedule))) \<and>
   (missing_columns schedule \<noteq> [] \<longrightarrow>
      fetch_schedule_odds e schedule api_key historical_csv pref =
        Inl (ValueError (''Schedule is missing required columns: '' @
               repr_list (missing_columns schedule))) \<and>
      (\<forall>c \<in> set key_cols. c \<notin> set (columns schedule) \<longrightarrow>
         sublist c (''Schedule is missing required columns: '' @
               repr_list (missing_columns schedule)))) \<and>
   (missing_columns schedule = [] \<longrightarrow>
      (\<forall>msg. fetch_schedule_odds e schedule api_key historical_csv pref \<noteq> Inl (ValueError msg))) \<and>
   (\<forall>p M. missing_columns schedule = [] \<and>
       live_merge (normalize_schedule schedule) (dedup_latest (latest_odds e api_key pref)) = Inr M \<and>
       historical_csv = Some p \<and> p \<noteq> [] \<and> files e p = Some Unreadable \<longrightarrow>
       fetch_schedule_odds e schedule api_key historical_csv pref = Inl CsvReadError) \<and>
   (\<forall>k. missing_columns schedule = [] \<and>
       find (key_clash (normalize_schedule schedule)
               (select_columns (latest_cols (dedup_latest (latest_odds e api_key pref)))
                  (dedup_latest (latest_odds e api_key pref))))
         [''home_team'', ''away_team''] = Some k \<longrightarrow>
       fetch_schedule_odds e schedule api_key historical_csv pref = Inl (MergeKeyError k)) \<and>
   (\<forall>M t k. missing_columns schedule = [] \<and>
       live_merge (normalize_schedule schedule) (dedup_latest (latest_odds e api_key pref)) = Inr M \<and>
       load_hist (files e) historical_csv = Inr (Some t) \<and> \<not> empty_table t \<and>
       find (key_clash M (frame_of_table t)) key_cols = Some k \<longrightarrow>
       fetch_schedule_odds e schedule api_key historical_csv pref = Inl (MergeKeyError k)) \<and>
   fetch_schedule_odds (e\<lparr>provider := None\<rparr>) schedule api_key historical_csv pref =
     fetch_schedule_odds e schedule [] historical_csv pref \<and>
   (\<forall>p. historical_csv = Some p \<and> files e p = None \<longrightarrow>
       fetch_schedule_odds e schedule api_key historical_csv pref =
       fetch_schedule_odds e schedule api_key None pref)"
proof (intro conjI)
  show "missing_columns schedule \<noteq> [] \<longleftrightarrow> (\<exists>c \<in> set key_cols. c \<notin> set (columns schedule))"
    using missing_columns_set [of schedule]
    by (metis (mono_tags, lifting) empty_Collect_eq set_empty)
next
  let ?msg = "''Schedule is missing required columns: '' @ repr_list (missing_columns schedule)"
  show "missing_columns schedule \<noteq> [] \<longrightarrow>
      fetch_schedule_odds e schedule api_key historical_csv pref = Inl (ValueError ?msg) \<and>
      (\<forall>c \<in> set key_cols. c \<notin> set (columns schedule) \<longrightarrow> sublist c ?msg)"
  proof
    assume m: "missing_columns schedule \<noteq> []"
    have "sublist c ?msg" if "c \<in> set key_cols" "c \<notin> set (columns schedule)" for c
    proof -
      from that have "c \<in> set (missing_columns schedule)"
        by (simp add: missing_columns_set)
      then have "sublist (repr_str c) (repr_list (missing_columns schedule))"
        by (rule sublist_repr_list)
      with sublist_repr_str [of c] have "sublist c (repr_list (missing_columns schedule))"
        by (rule sublist_order.order_trans)
      then show ?thesis
        by (meson sublist_append_leftI sublist_order.order_trans)
    qed
    moreover from m
    have "fetch_schedule_odds e schedule api_key historical_csv pref = Inl (ValueError ?msg)"
      by (simp add: fetch_schedule_odds_def)
    ultimately
    show "fetch_schedule_odds e schedule api_key historical_csv pref = Inl (ValueError ?msg) \<and>
         (\<forall>c \<in> set key_cols. c \<notin> set (columns schedule) \<longrightarrow> sublist c ?msg)"
      by blast
  qed
next
  show "missing_columns schedule = [] \<longrightarrow>
      (\<forall>msg. fetch_schedule_odds e schedule api_key historical_csv pref \<noteq> Inl (ValueError msg))"
  proof (intro impI allI)
    fix msg
    assume m: "missing_columns schedule = []"
    have l: "load_hist (files e) historical_csv \<noteq> Inl (ValueError msg)"
      by (auto simp: load_hist_def prepare_historical_lines_error)
    show "fetch_schedule_odds e schedule api_key historical_csv pref \<noteq> Inl (ValueError msg)"
      unfolding fetch_schedule_odds_ok [OF m] using l
      by (auto simp: live_merge_eq backfill_def merge_left_def split: sum.splits option.splits if_splits)
  qed
next
  show "\<forall>p M. missing_columns schedule = [] \<and>
       live_merge (normalize_schedule schedule) (dedup_latest (latest_odds e api_key pref)) = Inr M \<and>
       historical_csv = Some p \<and> p \<noteq> [] \<and> files e p = Some Unreadable \<longrightarrow>
       fetch_schedule_odds e schedule api_key historical_csv pref = Inl CsvReadError"
    by (simp add: fetch_schedule_odds_ok load_hist_def prepare_historical_lines_unreadable
        truthy_def)
next
  show "\<forall>k. missing_columns schedule = [] \<and>
       find (key_clash (normalize_schedule schedule)
               (select_columns (latest_cols (dedup_latest (latest_odds e api_key pref)))
                  (dedup_latest (latest_odds e api_key pref))))
         [''home_team'', ''away_team''] = Some k \<longrightarrow>
       fetch_schedule_odds e schedule api_key historical_csv pref = Inl (MergeKeyError k)"
    by (simp add: fetch_schedule_odds_ok live_merge_eq)
next
  show "\<forall>M t k. missing_columns schedule = [] \<and>
       live_merge (normalize_schedule schedule) (dedup_latest (latest_odds e api_key pref)) = Inr M \<and>
       load_hist (files e) historical_csv = Inr (Some t) \<and> \<not> empty_table t \<and>
       find (key_clash M (frame_of_table t)) key_cols = Some k \<longrightarrow>
       fetch_schedule_odds e schedule api_key historical_csv pref = Inl (MergeKeyError k)"
    by (simp add: fetch_schedule_odds_ok backfill_def merge_left_def)
next
  show "fetch_schedule_odds (e\<lparr>provider := None\<rparr>) schedule api_key historical_csv pref =
     fetch_schedule_odds e schedule [] historical_csv pref"
  proof -
    have f: "files (e\<lparr>provider := None\<rparr>) = files e" by simp
    show ?thesis
      unfolding fetch_schedule_odds_def Let_def live_merge_failed_provider f ..
  qed
next
  show "\<forall>p. historical_csv = Some p \<and> files e p = None \<longrightarrow>
       fetch_schedule_odds e schedule api_key historical_csv pref =
       fetch_schedule_odds e schedule api_key None pref"
  proof (intro allI impI)
    fix p
    assume a: "historical_csv = Some p \<and> files e p = None"
    then have hp: "historical_csv = Some p" and eq: "load_hist (files e) (Some p) = load_hist (files e) None"
      by (simp_all add: load_hist_absent) (simp add: load_hist_def truthy_def)
    show "fetch_schedule_odds e schedule api_key historical_csv pref =
       fetch_schedule_odds e schedule api_key None pref"
      unfolding fetch_schedule_odds_def Let_def hp eq ..
  qed
qed

theorem fetch_schedule_odds_errors_witness:
  "fetch_schedule_odds example_env (select_columns [''season'', ''home_team'', ''away_team'']
       example_schedule) ''key'' None None =
     Inl (ValueError (''Schedule is missing required columns: ['' @ [CHR 0x27] @ ''week'' @
            [CHR 0x27] @ '']'')) \<and>
   sublist ''week'' (''Schedule is missing required columns: ['' @ [CHR 0x27] @ ''week'' @
            [CHR 0x27] @ '']'') \<and>
   fetch_schedule_odds example_env example_schedule ''key'' (Some ''locked.csv'') None =
     Inl CsvReadError \<and>
   fetch_schedule_odds example_env example_schedule_text_season ''key'' (Some ''lines.csv'') None =
     Inl (MergeKeyError ''season'')"
proof -
  let ?s = "select_columns [''season'', ''home_team'', ''away_team''] example_schedule"
  have m: "missing_columns ?s = [''week'']"
    by (simp add: missing_columns_def select_columns_def)
  have w: "''week'' \<in> set key_cols \<and> ''week'' \<notin> set (columns ?s)"
    by (simp add: key_cols_def select_columns_def)
  have r: "repr_list [''week''] = ''['' @ [CHR 0x27] @ ''week'' @ [CHR 0x27] @ '']''"
    by (simp add: repr_list_def repr_str_def)
  have m2: "missing_columns example_schedule = []"
    by (simp add: missing_columns_def example_schedule_def)
  have l: "''locked.csv'' \<noteq> [] \<and> files example_env ''locked.csv'' = Some Unreadable"
    by (simp add: example_env_def example_files_def)
  define M where "M = live_frame (normalize_schedule example_schedule)
      (dedup_latest (latest_odds example_env ''key'' None))"
  have lm: "live_merge (normalize_schedule example_schedule)
      (dedup_latest (latest_odds example_env ''key'' None)) = Inr M"
  proof -
    have "find (key_clash (normalize_schedule example_schedule)
             (select_columns (latest_cols (dedup_latest (latest_odds example_env ''key'' None)))
                (dedup_latest (latest_odds example_env ''key'' None))))
           [''home_team'', ''away_team''] = None"
      by code_simp
    then show ?thesis
      by (simp add: live_merge_eq M_def)
  qed
  note s1 = fetch_schedule_odds_errors [of ?s example_env "''key''" None None]
  from s1 [THEN conjunct2, THEN conjunct1] m w r
  have a: "fetch_schedule_odds example_env ?s ''key'' None None =
     Inl (ValueError (''Schedule is missing required columns: ['' @ [CHR 0x27] @ ''week'' @
            [CHR 0x27] @ '']''))"
    and b: "sublist ''week'' (''Schedule is missing required columns: ['' @ [CHR 0x27] @
            ''week'' @ [CHR 0x27] @ '']'')"
    by auto
  note s2 = fetch_schedule_odds_errors [of example_schedule example_env "''key''"
      "Some ''locked.csv''" None]
  from s2 [THEN conjunct2, THEN conjunct2, THEN conjunct2, THEN conjunct1] m2 l lm
  have c: "fetch_schedule_odds example_env example_schedule ''key'' (Some ''locked.csv'') None =
     Inl CsvReadError"
    by blast
  have m3: "missing_columns example_schedule_text_season = []"
    by (simp add: missing_columns_def example_schedule_text_season_def)
  define M' where "M' = live_frame (normalize_schedule example_schedule_text_season)
      (dedup_latest (latest_odds example_env ''key'' None))"
  have lm': "live_merge (normalize_schedule example_schedule_text_season)
      (dedup_latest (latest_odds example_env ''key'' None)) = Inr M'"
  proof -
    have "find (key_clash (normalize_schedule example_schedule_text_season)
             (select_columns (latest_cols (dedup_latest (latest_odds example_env ''key'' None)))
                (dedup_latest (latest_odds example_env ''key'' None))))
           [''home_team'', ''away_team''] = None"
      by code_simp
    then show ?thesis
      by (simp add: live_merge_eq M'_def)
  qed
  define t where "t = \<lparr>labels = [''season'', ''week'', ''home_team'', ''away_team'', ''spread_line''],
      cells = [[Num 2023, Num 1, Str ''KC'', Str ''DEN'', Num (- 7 / 2)]]\<rparr>"
  have lh: "load_hist (files example_env) (Some ''lines.csv'') = Inr (Some t)"
    unfolding t_def by code_simp
  have ne: "\<not> empty_table t"
    unfolding t_def by code_simp
  have kc: "find (key_clash M' (frame_of_table t)) key_cols = Some ''season''"
    unfolding M'_def t_def by code_simp
  note s3 = fetch_schedule_odds_errors [of example_schedule_text_season example_env "''key''"
      "Some ''lines.csv''" None]
  from s3 [THEN conjunct2, THEN conjunct2, THEN conjunct2, THEN conjunct2, THEN conjunct2,
      THEN conjunct1] m3 lm' lh ne kc
  have d: "fetch_schedule_odds example_env example_schedule_text_season ''key''
      (Some ''lines.csv'') None = Inl (MergeKeyError ''season'')"
    by blast
  from a b c d show ?thesis by blast
qed

theorem fetch_schedule_odds_other_error_counterexample:
  "missing_columns example_schedule = [] \<and>
   (case fetch_schedule_odds example_env example_schedule [] (Some ''locked.csv'') None of
      Inl err \<Rightarrow> err = CsvReadError | Inr _ \<Rightarrow> False) \<and>
   missing_columns example_schedule_text_season = [] \<and>
   (case fetch_schedule_odds example_env example_schedule_text_season [] (Some ''lines.csv'') None of
      Inl err \<Rightarrow> err = MergeKeyError ''season'' | Inr _ \<Rightarrow> False)"
  by code_simp

section \<open>Enrichment without a key and without a historical file\<close>

lemma live_frame_no_latest:
  "live_frame S (DataFrame_columns [''home_team'', ''away_team'']) =
     \<lparr>columns = columns S @ filter (\<lambda>c. c \<notin> set (columns S)) ODDS_VALUE_COLUMNS,
      rows = map (\<lambda>r c. if c \<in> set (columns S) then r c else NA) (rows S)\<rparr>"
proof -
  let ?latest = "DataFrame_columns [''home_team'', ''away_team'']"
  have lc: "latest_cols ?latest = [''home_team'', ''away_team'']"
    by (simp add: latest_cols_def DataFrame_columns_def ODDS_VALUE_COLUMNS_def)
  have sel: "select_columns [''home_team'', ''away_team''] ?latest = ?latest"
    by (simp add: select_columns_def DataFrame_columns_def)
  have mg: "left_join S ?latest [''home_team'', ''away_team''] (''_x'', ''_y'') =
     \<lparr>columns = columns S,
      rows = map (\<lambda>r c. if c \<in> set (columns S) then r c else NA) (rows S)\<rparr>"
    by (rule left_join_no_right_columns) (simp_all add: DataFrame_columns_def)
  show ?thesis
    unfolding live_frame_def lc sel mg
    by (subst add_missing_columns [OF distinct_ODDS]) (auto simp: fun_eq_iff)
qed

lemma columns_tag_sources [simp]: "columns (tag_sources B) = columns B"
  by (simp add: tag_sources_def map_column_def Let_def)

text \<open>
  C2, as the code has it. For a schedule that has the four key columns, the enrichment
  with an empty key and no historical path returns a frame (it does not raise) with one
  row per schedule row, in order. Every cell of the schedule is kept, the team names
  normalized (\<^verbatim>\<open>odds_source\<close> apart); the odds-value columns the schedule lacks are added
  as nulls, then \<^verbatim>\<open>odds_source\<close> if the schedule lacks it; \<^verbatim>\<open>commence_time\<close> is not added.
  A row whose eight odds-value cells are null has \<^verbatim>\<open>odds_source\<close> equal to \<^verbatim>\<open>missing\<close>: so
  has every row when the schedule has no odds value of its own (last part).
\<close>

theorem enrich_without_sources:
  assumes "missing_columns schedule = []" and "\<not> truthy historical_csv"
  shows "\<exists>out. fetch_schedule_odds e schedule [] historical_csv pref = Inr out \<and>
     columns out = columns schedule @
        filter (\<lambda>c. c \<notin> set (columns schedule)) (ODDS_VALUE_COLUMNS @ [''odds_source'']) \<and>
     (''commence_time'' \<in> set (columns out) \<longleftrightarrow> ''commence_time'' \<in> set (columns schedule)) \<and>
     list_all2 (\<lambda>w r.
         (\<forall>c. c \<noteq> ''odds_source'' \<longrightarrow>
            w c = (if c \<in> set (columns schedule)
                   then (if c = ''home_team'' \<or> c = ''away_team'' then normalize_cell (r c) else r c)
                   else NA)) \<and>
         ((\<forall>c \<in> set ODDS_VALUE_COLUMNS. isna (w c)) \<longrightarrow> w ''odds_source'' = Str ''missing''))
       (rows out) (rows schedule) \<and>
     ((\<forall>r \<in> set (rows schedule). \<forall>c \<in> set ODDS_VALUE_COLUMNS.
          c \<in> set (columns schedule) \<longrightarrow> isna (r c)) \<longrightarrow>
      (\<forall>w \<in> set (rows out).
          (\<forall>c \<in> set ODDS_VALUE_COLUMNS. isna (w c)) \<and> w ''odds_source'' = Str ''missing''))"
proof -
  let ?os = "''odds_source''"
  let ?S = "normalize_schedule schedule"
  let ?L = "DataFrame_columns [''home_team'', ''away_team'']"
  define M where "M = live_frame ?S ?L"
  define out where "out = tag_sources (ensure_odds_source M)"
  define N :: "row \<Rightarrow> row" where
    "N = (\<lambda>r c. if c \<in> set (columns schedule)
                 then (if c = ''home_team'' \<or> c = ''away_team'' then normalize_cell (r c) else r c)
                 else NA)"
  define E :: "row \<Rightarrow> row" where
    "E = (\<lambda>r. if ?os \<in> set (columns M) then r else r(?os := NA))"
  define T :: "row \<Rightarrow> row" where
    "T = (\<lambda>r. if \<forall>c \<in> set ODDS_VALUE_COLUMNS. isna (r c) then r(?os := Str ''missing'')
               else r(?os := (if isna (r ?os) then Str ''odds_api'' else r ?os)))"
  have lm: "live_merge ?S ?L = Inr M"
    unfolding M_def live_merge_eq
    by (simp add: find_None_iff key_clash_no_rows select_columns_def DataFrame_columns_def
        split: option.splits)
  from assms(2) have lh: "load_hist (files e) historical_csv = Inr None"
    by (simp add: load_hist_def)
  have res: "fetch_schedule_odds e schedule [] historical_csv pref = Inr out"
    unfolding fetch_schedule_odds_ok [OF assms(1)] dedup_latest_no_key lm lh out_def
    by (simp add: backfill_no_table)
  have cM: "columns M = columns schedule @ filter (\<lambda>c. c \<notin> set (columns schedule)) ODDS_VALUE_COLUMNS"
    unfolding M_def live_frame_no_latest by simp
  have rM: "rows M = map N (rows schedule)"
    unfolding M_def live_frame_no_latest N_def
    by (auto simp: rows_normalize_schedule fun_eq_iff)
  have osM: "?os \<in> set (columns M) \<longleftrightarrow> ?os \<in> set (columns schedule)"
    unfolding cM using source_not_ODDS by auto
  have cout: "columns out = columns schedule @
        filter (\<lambda>c. c \<notin> set (columns schedule)) (ODDS_VALUE_COLUMNS @ [?os])"
    unfolding out_def columns_tag_sources ensure_odds_source_def
    using osM source_not_ODDS by (auto simp: assign_column_def cM)
  have rE: "rows (ensure_odds_source M) = map E (rows M)"
    unfolding E_def ensure_odds_source_def by (simp add: assign_column_def)
  have rout: "rows out = map (\<lambda>r. T (E (N r))) (rows schedule)"
    unfolding out_def rows_tag_sources rE rM T_def by (simp only: map_map comp_def)
  have other: "T (E (N r)) c = N r c" if "c \<noteq> ?os" for r c
    using that unfolding T_def E_def by simp
  have miss: "T r ?os = Str ''missing''" if "\<forall>c \<in> set ODDS_VALUE_COLUMNS. isna (T r c)" for r
  proof -
    have "T r c = r c" if "c \<in> set ODDS_VALUE_COLUMNS" for c
      using that source_not_ODDS unfolding T_def by auto
    with that have "\<forall>c \<in> set ODDS_VALUE_COLUMNS. isna (r c)" by simp
    then show ?thesis unfolding T_def by simp
  qed
  have ct: "''commence_time'' \<in> set (columns out) \<longleftrightarrow> ''commence_time'' \<in> set (columns schedule)"
    unfolding cout by (simp add: ODDS_VALUE_COLUMNS_def)
  have la: "list_all2 (\<lambda>w r.
         (\<forall>c. c \<noteq> ?os \<longrightarrow> w c = N r c) \<and>
         ((\<forall>c \<in> set ODDS_VALUE_COLUMNS. isna (w c)) \<longrightarrow> w ?os = Str ''missing''))
       (rows out) (rows schedule)"
    unfolding rout using other miss by (intro list_all2_map_same) blast
  have allnull: "\<forall>w \<in> set (rows out).
          (\<forall>c \<in> set ODDS_VALUE_COLUMNS. isna (w c)) \<and> w ?os = Str ''missing''"
    if h: "\<forall>r \<in> set (rows schedule). \<forall>c \<in> set ODDS_VALUE_COLUMNS.
          c \<in> set (columns schedule) \<longrightarrow> isna (r c)"
  proof
    fix w
    assume "w \<in> set (rows out)"
    then obtain r where r: "r \<in> set (rows schedule)" and w: "w = T (E (N r))"
      unfolding rout by auto
    have "isna (w c)" if c: "c \<in> set ODDS_VALUE_COLUMNS" for c
    proof -
      from c source_not_ODDS have "c \<noteq> ?os" by auto
      then have "w c = N r c" unfolding w by (rule other)
      moreover from c have "c \<noteq> ''home_team''" "c \<noteq> ''away_team''"
        by (auto simp: ODDS_VALUE_COLUMNS_def)
      ultimately show ?thesis
        using h r c unfolding N_def by (auto simp: isna_def)
    qed
    then have "\<forall>c \<in> set ODDS_VALUE_COLUMNS. isna (w c)" by blast
    with miss [of "E (N r)"] show "(\<forall>c \<in> set ODDS_VALUE_COLUMNS. isna (w c)) \<and> w ?os = Str ''missing''"
      unfolding w by blast
  qed
  from res cout ct la allnull show ?thesis
    unfolding N_def by blast
qed

theorem enrich_without_sources_witness:
  "(case fetch_schedule_odds example_env example_schedule [] None None of
      Inr out \<Rightarrow>
        columns out = [''season'', ''week'', ''home_team'', ''away_team''] @
                      ODDS_VALUE_COLUMNS @ [''odds_source''] \<and>
        list_all2 (\<lambda>w r. w ''season'' = r ''season'' \<and> w ''week'' = r ''week'' \<and>
                         w ''home_team'' = normalize_cell (r ''home_team'') \<and>
                         w ''away_team'' = normalize_cell (r ''away_team''))
          (rows out) (rows example_schedule) \<and>
        (\<forall>w \<in> set (rows out).
            (\<forall>c \<in> set ODDS_VALUE_COLUMNS. isna (w c)) \<and> w ''odds_source'' = Str ''missing'')
    | Inl _ \<Rightarrow> False)"
proof -
  have a1: "missing_columns example_schedule = []"
    by (simp add: missing_columns_def example_schedule_def)
  have a2: "\<not> truthy None"
    by (simp add: truthy_def)
  have a3: "\<forall>r \<in> set (rows example_schedule). \<forall>c \<in> set ODDS_VALUE_COLUMNS.
          c \<in> set (columns example_schedule) \<longrightarrow> isna (r c)"
    by (simp add: example_schedule_def ODDS_VALUE_COLUMNS_def)
  have c: "columns example_schedule @
        filter (\<lambda>c. c \<notin> set (columns example_schedule)) (ODDS_VALUE_COLUMNS @ [''odds_source'']) =
        [''season'', ''week'', ''home_team'', ''away_team''] @ ODDS_VALUE_COLUMNS @ [''odds_source'']"
    by (simp add: example_schedule_def ODDS_VALUE_COLUMNS_def)
  from enrich_without_sources [OF a1 a2, of example_env None] a3
  obtain out where eq_out: "fetch_schedule_odds example_env example_schedule [] None None = Inr out"
    and co: "columns out = [''season'', ''week'', ''home_team'', ''away_team''] @
                      ODDS_VALUE_COLUMNS @ [''odds_source'']"
    and la: "list_all2 (\<lambda>w r.
         (\<forall>c. c \<noteq> ''odds_source'' \<longrightarrow>
            w c = (if c \<in> set (columns example_schedule)
                   then (if c = ''home_team'' \<or> c = ''away_team'' then normalize_cell (r c) else r c)
                   else NA)) \<and>
         ((\<forall>c \<in> set ODDS_VALUE_COLUMNS. isna (w c)) \<longrightarrow> w ''odds_source'' = Str ''missing''))
       (rows out) (rows example_schedule)"
    and mi: "\<forall>w \<in> set (rows out).
          (\<forall>c \<in> set ODDS_VALUE_COLUMNS. isna (w c)) \<and> w ''odds_source'' = Str ''missing''"
    unfolding c by blast
  have "list_all2 (\<lambda>w r. w ''season'' = r ''season'' \<and> w ''week'' = r ''week'' \<and>
                         w ''home_team'' = normalize_cell (r ''home_team'') \<and>
                         w ''away_team'' = normalize_cell (r ''away_team''))
          (rows out) (rows example_schedule)"
    using la by (rule list_all2_mono) (simp add: example_schedule_def)
  with co mi show ?thesis
    unfolding eq_out by simp
qed

text \<open>
  The claim as written fails on a schedule that has a line of its own: the line stays,
  the row is not tagged \<^verbatim>\<open>missing\<close>, and the result has no \<^verbatim>\<open>commence_time\<close> column (nor
  has it for any schedule without one, since only live rows bring that column).
\<close>

theorem enrich_without_sources_counterexample:
  "(case fetch_schedule_odds example_env example_schedule_with_line [] None None of
      Inr out \<Rightarrow>
        ''commence_time'' \<notin> set (columns out) \<and>
        to_lists (select_columns (ODDS_VALUE_COLUMNS @ [''odds_source'']) out) =
          [[NA, NA, Num (- 7 / 2), NA, NA, NA, NA, NA, Str ''odds_api'']]
    | Inl _ \<Rightarrow> False)"
  by code_simp


end
